theory Spec2Isabelle
  imports Complex_Main "HOL-Library.Multiset" "HOL-Library.Char_ord"
    "HOL-Library.List_Lexorder" "HOL-Library.Sublist"
begin

section \<open>Shared vocabulary\<close>

text \<open>
  Every rejection of a promise and every thrown exception of the TypeScript sources is a
  value of \<open>error\<close> on the left of a sum. \<open>ToolFailure\<close> stands for the errors of the
  runtime (a subprocess that exits non-zero or times out, a filesystem call that fails).
\<close>

datatype error = AccessDenied string | NotFound string | ToolFailure string

text \<open>
  What the code writes to its loggers and to \<open>console.error\<close>, one constructor per call
  site, with the values interpolated into the message.
\<close>

datatype log_entry =
    SyncCheckFailed string error
  | GitInfoFailed string error
  | ScannedProject string "string option" "string option"
  | ScanFailed string error
  | GitActivityFailed string error
  | ProjectNotFound string
  | UpdatedLastActivity string string
  | InsertedStats nat string

text \<open>
  \<open>String.prototype.trim\<close> on the ASCII range: tab, line feed, vertical tab, form feed,
  carriage return and space are stripped from both ends.
\<close>

definition isWhiteSpace :: "char \<Rightarrow> bool" where
  "isWhiteSpace c = (c \<in> set [CHR 0x09, CHR 0x0A, CHR 0x0B, CHR 0x0C, CHR 0x0D, CHR 0x20])"

definition trim :: "string \<Rightarrow> string" where
  "trim s = rev (dropWhile isWhiteSpace (rev (dropWhile isWhiteSpace s)))"

text \<open>\<open>s.split('\n')\<close>: the pieces between line feeds; an empty string gives one empty piece.\<close>

fun splitLines :: "string \<Rightarrow> string list" where
  "splitLines [] = [[]]"
| "splitLines (c # cs) =
     (if c = CHR 0x0A then [] # splitLines cs
      else (case splitLines cs of
              [] \<Rightarrow> [[c]]
            | l # ls \<Rightarrow> (c # l) # ls))"

text \<open>\<open>s.startsWith(p)\<close>.\<close>

definition startsWith :: "string \<Rightarrow> string \<Rightarrow> bool" where
  "startsWith s p = (take (length p) s = p)"

text \<open>\<open>v || null\<close> on a value of type \<open>string | null | undefined\<close>: the empty string is falsy.\<close>

fun orNull :: "string option \<Rightarrow> string option" where
  "orNull None = None"
| "orNull (Some s) = (if s = [] then None else Some s)"

text \<open>
  \<open>execAsync(command, {cwd, timeout})\<close>: the working directory, the timeout in
  milliseconds when one is given, and the command line; the promise resolves with the
  standard output or rejects.
\<close>

type_synonym runner = "string \<Rightarrow> nat option \<Rightarrow> string \<Rightarrow> error + string"

section \<open>git.ts: the synchronization classifier\<close>

datatype SyncStatus = Synced | Ahead | Behind | Diverged | Unknown | NoRemote

record GitInfo =
  remoteUrl :: "string option"
  branch :: "string option"
  syncStatus :: SyncStatus

text \<open>The comparison chain of step 3, on the three trimmed hashes.\<close>

definition classify :: "string \<Rightarrow> string \<Rightarrow> string \<Rightarrow> SyncStatus" where
  "classify local remote base =
     (if local = remote then Synced
      else if local = base then Behind
      else if remote = base then Ahead
      else Diverged)"

text \<open>
  The body of the inner \<open>try\<close> of step 3: the fetch with its 10 s timeout, then the three
  hash queries with the 5 s timeout; the first rejection leaves the block.
\<close>

definition checkSync :: "runner \<Rightarrow> string \<Rightarrow> string \<Rightarrow> error + SyncStatus" where
  "checkSync run dirPath br =
     (case run dirPath (Some 10000) (''git fetch origin '' @ br) of
        Inl e \<Rightarrow> Inl e
      | Inr _ \<Rightarrow>
     (case run dirPath (Some 5000) ''git rev-parse HEAD'' of
        Inl e \<Rightarrow> Inl e
      | Inr localHash \<Rightarrow>
     (case run dirPath (Some 5000) (''git rev-parse origin/'' @ br) of
        Inl e \<Rightarrow> Inl e
      | Inr remoteHash \<Rightarrow>
     (case run dirPath (Some 5000) (''git merge-base HEAD origin/'' @ br) of
        Inl e \<Rightarrow> Inl e
      | Inr baseHash \<Rightarrow>
          Inr (classify (trim localHash) (trim remoteHash) (trim baseHash))))))"

text \<open>The body of the outer \<open>try\<close>: each of the three inner handlers returns or falls through.\<close>

definition getGitInfo_body :: "runner \<Rightarrow> string \<Rightarrow> error + (GitInfo \<times> log_entry list)" where
  "getGitInfo_body run dirPath =
     (case run dirPath (Some 5000) ''git rev-parse --abbrev-ref HEAD'' of
        Inl _ \<Rightarrow> Inr (\<lparr>remoteUrl = None, branch = None, syncStatus = Unknown\<rparr>, [])
      | Inr out1 \<Rightarrow>
     (case run dirPath (Some 5000) ''git remote get-url origin'' of
        Inl _ \<Rightarrow> Inr (\<lparr>remoteUrl = None, branch = Some (trim out1), syncStatus = NoRemote\<rparr>, [])
      | Inr out2 \<Rightarrow>
     (case checkSync run dirPath (trim out1) of
        Inl e \<Rightarrow>
          Inr (\<lparr>remoteUrl = Some (trim out2), branch = Some (trim out1), syncStatus = Unknown\<rparr>,
               [SyncCheckFailed dirPath e])
      | Inr s \<Rightarrow>
          Inr (\<lparr>remoteUrl = Some (trim out2), branch = Some (trim out1), syncStatus = s\<rparr>, []))))"

text \<open>\<open>getGitInfo\<close>: the outer handler turns anything the body throws into the all-null record.\<close>

definition getGitInfo :: "runner \<Rightarrow> string \<Rightarrow> error + (GitInfo \<times> log_entry list)" where
  "getGitInfo run dirPath =
     (case getGitInfo_body run dirPath of
        Inl e \<Rightarrow> Inr (\<lparr>remoteUrl = None, branch = None, syncStatus = Unknown\<rparr>,
                      [GitInfoFailed dirPath e])
      | Inr r \<Rightarrow> Inr r)"

section \<open>db.ts: the store\<close>

text \<open>
  The \<open>Project\<close> interface, which is also the shape of a row of table \<open>projects\<close>
  (\<open>id'\<close> is the optional \<open>id\<close>: present on every stored row).
\<close>

record Project =
  id' :: "nat option"
  name :: string
  path :: string
  status :: string
  is_git :: bool
  tech_stack :: "string option"
  last_scanned :: string
  description :: "string option"
  remote_url :: "string option"
  sync_status :: "string option"
  branch_name :: "string option"
  last_activity_date :: "string option"

text \<open>A row of table \<open>activity_stats\<close>.\<close>

record ActivityStat =
  stat_id :: nat
  project_id :: nat
  date :: string
  changes_count :: nat

text \<open>
  The two tables, each with the counter that \<open>AUTOINCREMENT\<close> keeps of the largest id
  handed out.
\<close>

record Database =
  projects :: "Project list"
  projects_seq :: nat
  activity_stats :: "ActivityStat list"
  activity_stats_seq :: nat

definition emptyDatabase :: Database where
  "emptyDatabase = \<lparr>projects = [], projects_seq = 0, activity_stats = [], activity_stats_seq = 0\<rparr>"

text \<open>The parameter object \<open>upsertProject\<close> hands to the statement.\<close>

definition bindProject :: "Project \<Rightarrow> Project" where
  "bindProject project =
     project\<lparr>description := orNull (description project),
             remote_url := orNull (remote_url project),
             sync_status := orNull (sync_status project),
             branch_name := orNull (branch_name project),
             last_activity_date := orNull (last_activity_date project)\<rparr>"

text \<open>
  \<open>ON CONFLICT(path) DO UPDATE SET\<close> every column but \<open>id\<close> and \<open>path\<close>: what
  the statement makes of a stored row, given the bound values.
\<close>

definition overwrite :: "Project \<Rightarrow> Project \<Rightarrow> Project" where
  "overwrite v r = (if path r = path v then v\<lparr>id' := id' r\<rparr> else r)"

text \<open>
  \<open>upsertProject\<close>: a row with the same path keeps its id and takes the bound values,
  otherwise a row with the next id is appended. The insertion is attempted either way, so
  the counter of \<open>AUTOINCREMENT\<close> advances on a conflict as well.
\<close>

definition upsertProject :: "Project \<Rightarrow> Database \<Rightarrow> Database" where
  "upsertProject project d =
     (let v = bindProject project in
      if path v \<in> set (map path (projects d))
      then d\<lparr>projects := map (overwrite v) (projects d),
              projects_seq := Suc (projects_seq d)\<rparr>
      else d\<lparr>projects := projects d @ [v\<lparr>id' := Some (Suc (projects_seq d))\<rparr>],
              projects_seq := Suc (projects_seq d)\<rparr>)"

text \<open>
  One \<open>insert.run\<close> of \<open>insertActivityStats\<close>, on a \<open>{date, count}\<close> pair; the
  counter advances as it does for \<open>projects\<close>.
\<close>

definition upsertStat :: "nat \<Rightarrow> string \<times> nat \<Rightarrow> Database \<Rightarrow> Database" where
  "upsertStat projectId stat d =
     (if (projectId, fst stat) \<in> set (map (\<lambda>r. (project_id r, date r)) (activity_stats d))
      then d\<lparr>activity_stats :=
               map (\<lambda>r. if project_id r = projectId \<and> date r = fst stat
                         then r\<lparr>changes_count := snd stat\<rparr> else r) (activity_stats d),
              activity_stats_seq := Suc (activity_stats_seq d)\<rparr>
      else d\<lparr>activity_stats := activity_stats d @
                 [\<lparr>stat_id = Suc (activity_stats_seq d), project_id = projectId,
                   date = fst stat, changes_count = snd stat\<rparr>],
              activity_stats_seq := Suc (activity_stats_seq d)\<rparr>)"

text \<open>The transaction: the statement runs once per element, in order.\<close>

definition insertActivityStats :: "nat \<Rightarrow> (string \<times> nat) list \<Rightarrow> Database \<Rightarrow> Database" where
  "insertActivityStats projectId stats d = fold (upsertStat projectId) stats d"

definition getProjectByPath :: "string \<Rightarrow> Database \<Rightarrow> Project option" where
  "getProjectByPath p d = find (\<lambda>r. path r = p) (projects d)"

text \<open>The count stored for a project and a day, if a row exists.\<close>

definition storedCount :: "Database \<Rightarrow> nat \<Rightarrow> string \<Rightarrow> nat option" where
  "storedCount d projectId day =
     map_option changes_count
       (find (\<lambda>r. project_id r = projectId \<and> date r = day) (activity_stats d))"

section \<open>The environment of a scan or an analysis\<close>

text \<open>A \<open>Dirent\<close> as the scanner reads it.\<close>

record Dirent =
  dname :: string
  isDirectory :: bool

text \<open>
  A directory tree as \<open>getFileActivity\<close> sees it: a regular file with what \<open>fs.stat\<close>
  answers for its \<open>mtimeMs\<close>, a directory whose \<open>readdir\<close> succeeds with its entries, a
  directory whose \<open>readdir\<close> rejects, and an entry that is neither.
\<close>

datatype Node =
    FileNode string "error + real"
  | DirNode string "Node list"
  | UnreadableDir string error
  | OtherNode string

text \<open>
  The world outside the process, read but never written by a scan: the filesystem, the
  answers of git, the clock. \<open>validatePath\<close>, \<open>isGitRepo\<close> and \<open>detectTechStack\<close>
  live in \<open>lib/security.ts\<close> and \<open>lib/fs.ts\<close>; they are async functions and enter as
  parameters that resolve or reject. \<open>HOME\<close> is \<open>process.env.HOME || process.cwd()\<close>,
  \<open>clock n\<close> is what the n-th \<open>new Date().toISOString()\<close> of the process prints,
  \<open>listing\<close> is the tree below a directory as \<open>readdir\<close> and \<open>stat\<close> show it, and
  \<open>toISOString\<close> and \<open>localeCompare\<close> are the methods of \<open>Date\<close> and \<open>String\<close>.
  A modification time in milliseconds is the real number the JavaScript number denotes.
\<close>

record Env =
  HOME :: string
  validatePath :: "string \<Rightarrow> string list \<Rightarrow> error + string"
  readdir :: "string \<Rightarrow> error + Dirent list"
  pathJoin :: "string \<Rightarrow> string \<Rightarrow> string"
  isGitRepo :: "string \<Rightarrow> error + bool"
  detectTechStack :: "string \<Rightarrow> error + string option"
  access :: "string \<Rightarrow> error + unit"
  readFile :: "string \<Rightarrow> error + string"
  exec :: runner
  clock :: "nat \<Rightarrow> string"
  listing :: "string \<Rightarrow> error + Node list"
  toISOString :: "real \<Rightarrow> string"
  localeCompare :: "string \<Rightarrow> string \<Rightarrow> int"

text \<open>What a call changes: the store, the number of clock readings so far, the log.\<close>

record World =
  db :: Database
  ticks :: nat
  logs :: "log_entry list"

section \<open>activity.ts: the activity aggregator\<close>

text \<open>\<open>statsMap.set(date, (statsMap.get(date) || 0) + 1)\<close> on a Map kept in insertion order.\<close>

fun bump :: "string \<Rightarrow> (string \<times> nat) list \<Rightarrow> (string \<times> nat) list" where
  "bump day [] = [(day, 1)]"
| "bump day ((k, c) # m) = (if k = day then (k, c + 1) # m else (k, c) # bump day m)"

definition countDates :: "string list \<Rightarrow> (string \<times> nat) list" where
  "countDates ls = fold bump ls []"

text \<open>
  \<open>stats.sort((a, b) => b.date.localeCompare(a.date))\<close>: a stable sort by the comparator,
  as an insertion sort that puts an element before the first one it does not follow.
\<close>

fun insertBy :: "('a \<Rightarrow> 'a \<Rightarrow> int) \<Rightarrow> 'a \<Rightarrow> 'a list \<Rightarrow> 'a list" where
  "insertBy cmp x [] = [x]"
| "insertBy cmp x (y # ys) = (if cmp x y \<le> 0 then x # y # ys else y # insertBy cmp x ys)"

fun sortBy :: "('a \<Rightarrow> 'a \<Rightarrow> int) \<Rightarrow> 'a list \<Rightarrow> 'a list" where
  "sortBy cmp [] = []"
| "sortBy cmp (x # xs) = insertBy cmp x (sortBy cmp xs)"

text \<open>The two command lines of \<open>getGitActivity\<close>; \<open>CHR 0x22\<close> is the double quote.\<close>

definition gitLogWindow :: string where
  "gitLogWindow = ''git log --since='' @ [CHR 0x22] @ ''30 days ago'' @ [CHR 0x22]
       @ '' --pretty=format:'' @ [CHR 0x22] @ ''%ad'' @ [CHR 0x22] @ '' --date=short''"

definition gitLogLast :: string where
  "gitLogLast = ''git log -1 --pretty=format:'' @ [CHR 0x22] @ ''%ad'' @ [CHR 0x22]
       @ '' --date=short''"

text \<open>
  \<open>getGitActivity\<close>: the last-activity date, the per-day counts and what was logged.
  Reading \<open>stats[0].date\<close> of an empty array would throw into the outer handler.
\<close>

definition getGitActivity ::
  "Env \<Rightarrow> string \<Rightarrow> string option \<times> (string \<times> nat) list \<times> log_entry list" where
  "getGitActivity env dirPath =
     (case access env (pathJoin env dirPath ''.git'') of
        Inl _ \<Rightarrow> (None, [], [])
      | Inr _ \<Rightarrow>
     (case exec env dirPath None gitLogWindow of
        Inl e \<Rightarrow> (None, [], [GitActivityFailed dirPath e])
      | Inr out \<Rightarrow>
          (let ls = filter (\<lambda>line. trim line \<noteq> []) (splitLines out) in
           if ls \<noteq> [] then
             (let stats = sortBy (\<lambda>a b. localeCompare env (fst b) (fst a)) (countDates ls)
              in (case stats of
                    [] \<Rightarrow> (None, [], [GitActivityFailed dirPath (ToolFailure ''TypeError'')])
                  | s # _ \<Rightarrow> (Some (fst s), stats, [])))
           else
             (case exec env dirPath None gitLogLast of
                Inl _ \<Rightarrow> (None, [], [])
              | Inr lastCommit \<Rightarrow>
                  (if trim lastCommit \<noteq> [] then (Some (trim lastCommit), [], [])
                   else (None, [], []))))))"

text \<open>The names the walk passes over, files and directories alike.\<close>

definition skipped :: "string \<Rightarrow> bool" where
  "skipped n = (startsWith n ''.'' \<or> n = ''node_modules'' \<or> n = ''dist'' \<or> n = ''build''
                \<or> n = ''coverage'')"

text \<open>
  The loop of \<open>walk\<close> over the entries of one directory, threading \<open>latestMtimeMs\<close>.
  The first component is the exception that left the loop, if any: a rejected \<open>fs.stat\<close>.
  A nested \<open>walk\<close> has its own handler, so a directory never throws into its parent's loop.
\<close>

fun walkEntry :: "Node \<Rightarrow> real \<Rightarrow> error option \<times> real"
  and walkEntries :: "Node list \<Rightarrow> real \<Rightarrow> error option \<times> real" where
  "walkEntry (FileNode n st) latest =
     (if skipped n then (None, latest)
      else (case st of
              Inl e \<Rightarrow> (Some e, latest)
            | Inr mtimeMs \<Rightarrow> (None, if mtimeMs > latest then mtimeMs else latest)))"
| "walkEntry (DirNode n es) latest =
     (if skipped n then (None, latest) else (None, snd (walkEntries es latest)))"
| "walkEntry (UnreadableDir n e) latest = (None, latest)"
| "walkEntry (OtherNode n) latest = (None, latest)"
| "walkEntries [] latest = (None, latest)"
| "walkEntries (n # ns) latest =
     (case walkEntry n latest of
        (Some e, l) \<Rightarrow> (Some e, l)
      | (None, l) \<Rightarrow> walkEntries ns l)"

text \<open>\<open>walk(dirPath)\<close> at the root, from \<open>latestMtimeMs = 0\<close>, then the test against 0.\<close>

definition latestMtime :: "error + Node list \<Rightarrow> real" where
  "latestMtime tree = (case tree of Inl _ \<Rightarrow> 0 | Inr es \<Rightarrow> snd (walkEntries es 0))"

definition getFileActivity :: "Env \<Rightarrow> string \<Rightarrow> string option" where
  "getFileActivity env dirPath =
     (let latestMtimeMs = latestMtime (listing env dirPath)
      in if latestMtimeMs = 0 then None else Some (toISOString env latestMtimeMs))"

text \<open>Truthiness of a \<open>string | null\<close>: null and the empty string are falsy.\<close>

definition truthy :: "string option \<Rightarrow> bool" where
  "truthy v = (case v of None \<Rightarrow> False | Some s \<Rightarrow> s \<noteq> [])"

text \<open>
  \<open>analyzeProjectActivity\<close>. The first component is the outcome: the function has
  no \<open>throw\<close> of its own, and the lookup that finds nothing logs and returns.
\<close>

definition analyzeProjectActivity :: "Env \<Rightarrow> string \<Rightarrow> World \<Rightarrow> (error + unit) \<times> World" where
  "analyzeProjectActivity env projectPath w =
     (case getProjectByPath projectPath (db w) of
        None \<Rightarrow> (Inr (), w\<lparr>logs := logs w @ [ProjectNotFound projectPath]\<rparr>)
      | Some project \<Rightarrow>
          (let (lastActivityDate, stats, glog) =
                 (if is_git project then getGitActivity env (path project)
                  else (getFileActivity env (path project), [], []));
               w1 = w\<lparr>logs := logs w @ glog\<rparr>;
               w2 = (case lastActivityDate of
                       None \<Rightarrow> w1
                     | Some d \<Rightarrow>
                         if d \<noteq> [] \<and> last_activity_date project \<noteq> Some d
                         then w1\<lparr>db := upsertProject (project\<lparr>last_activity_date := Some d\<rparr>) (db w1),
                                 logs := logs w1 @ [UpdatedLastActivity (name project) d]\<rparr>
                         else w1);
               w3 = (case id' project of
                       None \<Rightarrow> w2
                     | Some i \<Rightarrow>
                         if stats \<noteq> [] \<and> i \<noteq> 0
                         then w2\<lparr>db := insertActivityStats i stats (db w2),
                                 logs := logs w2 @ [InsertedStats (length stats) (name project)]\<rparr>
                         else w2)
           in (Inr (), w3)))"

section \<open>scanner.ts: the project scanner\<close>

text \<open>The loop of \<open>getProjectDescription\<close> over the lines of the readme.\<close>

fun firstDescription :: "string list \<Rightarrow> string option" where
  "firstDescription [] = None"
| "firstDescription (line # rest) =
     (let trimmed = trim line in
      if trimmed \<noteq> [] \<and> \<not> startsWith trimmed ''#'' \<and> \<not> startsWith trimmed ''![''
      then Some trimmed
      else firstDescription rest)"

text \<open>\<open>getProjectDescription\<close>: a rejected \<open>access\<close> or \<open>readFile\<close> gives null.\<close>

definition getProjectDescription :: "Env \<Rightarrow> string \<Rightarrow> string option" where
  "getProjectDescription env dirPath =
     (let readmePath = pathJoin env dirPath ''README.md'' in
      case access env readmePath of
        Inl _ \<Rightarrow> None
      | Inr _ \<Rightarrow>
          (case readFile env readmePath of
             Inl _ \<Rightarrow> None
           | Inr content \<Rightarrow> firstDescription (splitLines content)))"

text \<open>The string a \<open>SyncStatus\<close> is.\<close>

fun statusText :: "SyncStatus \<Rightarrow> string" where
  "statusText Synced = ''Synced''"
| "statusText Ahead = ''Ahead''"
| "statusText Behind = ''Behind''"
| "statusText Diverged = ''Diverged''"
| "statusText Unknown = ''Unknown''"
| "statusText NoRemote = ''NoRemote''"

text \<open>
  The record the scanner assembles for a qualifying child: the \<open>gitInfo\<close> fields are
  those of \<open>getGitInfo\<close> for a repository and three nulls otherwise.
\<close>

definition assemble ::
  "string \<Rightarrow> string \<Rightarrow> bool \<Rightarrow> string option \<Rightarrow> string \<Rightarrow> string option \<Rightarrow>
   GitInfo option \<Rightarrow> Project" where
  "assemble entryName projectPath isGit techStack now descr gitInfo =
     \<lparr>id' = None, name = entryName, path = projectPath, status = ''active'',
      is_git = isGit, tech_stack = techStack, last_scanned = now, description = descr,
      remote_url = (case gitInfo of None \<Rightarrow> None | Some g \<Rightarrow> remoteUrl g),
      sync_status = (case gitInfo of None \<Rightarrow> None | Some g \<Rightarrow> Some (statusText (syncStatus g))),
      branch_name = (case gitInfo of None \<Rightarrow> None | Some g \<Rightarrow> branch g),
      last_activity_date = None\<rparr>"

text \<open>The test that opens the loop body.\<close>

definition candidate :: "Dirent \<Rightarrow> bool" where
  "candidate entry =
     (isDirectory entry \<and> \<not> startsWith (dname entry) ''.'' \<and> dname entry \<noteq> ''node_modules'')"

text \<open>
  The loop body of \<open>scanDirectory\<close> up to the \<open>project\<close> literal, which reads the
  environment only: the record assembled for a qualifying child (with \<open>now\<close> for
  \<open>new Date().toISOString()\<close>) and what \<open>getGitInfo\<close> logged, nothing for a child that
  is skipped, or the exception that leaves the loop. Nothing in the loop body catches: a
  rejection of \<open>isGitRepo\<close> or \<open>detectTechStack\<close> goes to the handler around the loop.
\<close>

definition inspectChild ::
  "Env \<Rightarrow> string \<Rightarrow> Dirent \<Rightarrow> string \<Rightarrow> error + (Project \<times> log_entry list) option" where
  "inspectChild env rootPath entry now =
     (if candidate entry then
        (let projectPath = pathJoin env rootPath (dname entry) in
         case isGitRepo env projectPath of
           Inl e \<Rightarrow> Inl e
         | Inr isGit \<Rightarrow>
        (case detectTechStack env projectPath of
           Inl e \<Rightarrow> Inl e
         | Inr techStack \<Rightarrow>
             if isGit \<or> truthy techStack then
               (let descr = getProjectDescription env projectPath in
                case (if isGit
                      then map_sum id (\<lambda>(g, l). (Some g, l)) (getGitInfo (exec env) projectPath)
                      else Inr (None, [])) of
                  Inl e \<Rightarrow> Inl e
                | Inr (gitInfo, glog) \<Rightarrow>
                    Inr (Some (assemble (dname entry) projectPath isGit techStack now descr gitInfo,
                               glog)))
             else Inr None))
      else Inr None)"

text \<open>
  One iteration of the loop: the inspection, then \<open>upsertProject\<close>, the push (the
  project returned) and the \<open>logger.info\<close> line.
\<close>

definition scanChild :: "Env \<Rightarrow> string \<Rightarrow> Dirent \<Rightarrow> World \<Rightarrow> (error + Project option) \<times> World" where
  "scanChild env rootPath entry w =
     (case inspectChild env rootPath entry (clock env (ticks w)) of
        Inl e \<Rightarrow> (Inl e, w)
      | Inr None \<Rightarrow> (Inr None, w)
      | Inr (Some (project, glog)) \<Rightarrow>
          (Inr (Some project),
           w\<lparr>db := upsertProject project (db w),
             ticks := Suc (ticks w),
             logs := logs w @ glog @
               [ScannedProject (name project) (tech_stack project) (sync_status project)]\<rparr>))"

text \<open>The loop, with the array \<open>projects\<close> as accumulator.\<close>

fun scanEntries ::
  "Env \<Rightarrow> string \<Rightarrow> Dirent list \<Rightarrow> Project list \<Rightarrow> World \<Rightarrow> (error + Project list) \<times> World" where
  "scanEntries env rootPath [] acc w = (Inr acc, w)"
| "scanEntries env rootPath (entry # rest) acc w =
     (case scanChild env rootPath entry w of
        (Inl e, w') \<Rightarrow> (Inl e, w')
      | (Inr None, w') \<Rightarrow> scanEntries env rootPath rest acc w'
      | (Inr (Some project), w') \<Rightarrow> scanEntries env rootPath rest (acc @ [project]) w')"

text \<open>
  \<open>scanDirectory\<close>: the validation outside the \<open>try\<close>, then \<open>readdir\<close> and the loop
  inside it; the handler logs and throws again.
\<close>

definition scanDirectory :: "Env \<Rightarrow> string \<Rightarrow> World \<Rightarrow> (error + Project list) \<times> World" where
  "scanDirectory env rootPath w =
     (case validatePath env rootPath [HOME env] of
        Inl e \<Rightarrow> (Inl e, w)
      | Inr _ \<Rightarrow>
          (case readdir env rootPath of
             Inl e \<Rightarrow> (Inl e, w\<lparr>logs := logs w @ [ScanFailed rootPath e]\<rparr>)
           | Inr entries \<Rightarrow>
               (case scanEntries env rootPath entries [] w of
                  (Inl e, w') \<Rightarrow> (Inl e, w'\<lparr>logs := logs w' @ [ScanFailed rootPath e]\<rparr>)
                | (Inr ps, w') \<Rightarrow> (Inr ps, w'))))"

section \<open>index.ts: the tool handlers\<close>

text \<open>What a handler answers: the text of its single content item.\<close>

datatype ToolText = AnalyzedOne string | AnalyzedAll nat

text \<open>The loop of the handler over the stored paths.\<close>

fun analyzeAll :: "Env \<Rightarrow> string list \<Rightarrow> World \<Rightarrow> (error + unit) \<times> World" where
  "analyzeAll env [] w = (Inr (), w)"
| "analyzeAll env (p # ps) w =
     (case analyzeProjectActivity env p w of
        (Inl e, w') \<Rightarrow> (Inl e, w')
      | (Inr _, w') \<Rightarrow> analyzeAll env ps w')"

text \<open>
  The handler of tool \<open>analyze_project_activity\<close>, as given to \<open>withErrorHandling\<close>:
  with a truthy \<open>project_path\<close> it analyses that path and answers that it did.
\<close>

definition analyze_project_activity ::
  "Env \<Rightarrow> string option \<Rightarrow> World \<Rightarrow> (error + ToolText) \<times> World" where
  "analyze_project_activity env project_path w =
     (case project_path of
        Some p \<Rightarrow>
          (if p \<noteq> [] then
             (case analyzeProjectActivity env p w of
                (Inl e, w') \<Rightarrow> (Inl e, w')
              | (Inr _, w') \<Rightarrow> (Inr (AnalyzedOne p), w'))
           else
             (case analyzeAll env (map path (projects (db w))) w of
                (Inl e, w') \<Rightarrow> (Inl e, w')
              | (Inr _, w') \<Rightarrow> (Inr (AnalyzedAll (length (projects (db w)))), w')))
      | None \<Rightarrow>
          (case analyzeAll env (map path (projects (db w))) w of
             (Inl e, w') \<Rightarrow> (Inl e, w')
           | (Inr _, w') \<Rightarrow> (Inr (AnalyzedAll (length (projects (db w)))), w')))"

text \<open>The \<open>pagination\<close> object and the answer of \<open>list_projects\<close>.\<close>

record Pagination =
  limit :: int
  offset :: int
  total' :: int
  has_more :: bool

record Listing =
  data :: "Project list"
  pagination :: Pagination

text \<open>
  \<open>SELECT * FROM projects ORDER BY name LIMIT ? OFFSET ?\<close> as SQLite evaluates it, on
  integers: a negative LIMIT puts no bound on the number of rows, a negative OFFSET is 0.
\<close>

definition selectPage :: "Database \<Rightarrow> int \<Rightarrow> int \<Rightarrow> Project list" where
  "selectPage d lmt off =
     (let rows = drop (nat off) (sort_key name (projects d))
      in if lmt < 0 then rows else take (nat lmt) rows)"

text \<open>
  The handler of tool \<open>list_projects\<close>; the schema fills in 20 and 0 for arguments
  left out. Arguments are the integers among the numbers the schema admits.
\<close>

definition list_projects :: "Database \<Rightarrow> int option \<Rightarrow> int option \<Rightarrow> Listing" where
  "list_projects d limitArg offsetArg =
     (let requested = (case limitArg of None \<Rightarrow> 20 | Some l \<Rightarrow> l);
          off = (case offsetArg of None \<Rightarrow> 0 | Some k \<Rightarrow> k);
          safeLimit = min requested 50;
          rows = selectPage d safeLimit off;
          cnt = int (length (projects d))
      in \<lparr>data = rows,
          pagination = \<lparr>limit = safeLimit, offset = off, total' = cnt,
                        has_more = (off + safeLimit < cnt)\<rparr>\<rparr>)"

section \<open>lib/security.ts: the path validator\<close>

text \<open>
  Modelled from the spec: \<open>lib/security.ts\<close>, the file of \<open>validatePath\<close>, is not among
  the sources (only its unit test and its call in \<open>scanDirectory\<close> are). The definitions
  of this section follow section 4.1 of the specification: the candidate and the roots
  are made absolute, their \<open>..\<close> segments and symbolic links are resolved, and the
  candidate is accepted if its canonical form is a root's canonical form or lies below it.

  A filesystem, as far as canonical forms go: the symbolic links (where each stands, as
  resolved segments, and the absolute path it points to), the working directory, and how
  many links a resolution may follow before it fails.
\<close>

record FileSystem =
  symlinks :: "(string list \<times> string list) list"
  cwd :: "string list"
  maxLinks :: nat

text \<open>The segments of a path: the pieces between slashes.\<close>

fun splitPath :: "string \<Rightarrow> string list" where
  "splitPath [] = [[]]"
| "splitPath (c # cs) =
     (if c = CHR ''/'' then [] # splitPath cs
      else (case splitPath cs of
              [] \<Rightarrow> [[c]]
            | s # ss \<Rightarrow> (c # s) # ss))"

text \<open>
  Resolution, segment by segment, with the resolved part so far: an empty segment and
  \<open>.\<close> are dropped, \<open>..\<close> removes the last resolved segment, a segment that makes
  the resolved part a link is replaced by the link's target, resolved from the root.
\<close>

fun resolveSegments ::
  "nat \<Rightarrow> (string list \<times> string list) list \<Rightarrow> string list \<Rightarrow> string list \<Rightarrow> string list option" where
  "resolveSegments fuel links acc [] = Some acc"
| "resolveSegments fuel links acc (s # rest) =
     (if s = [] \<or> s = ''.'' then resolveSegments fuel links acc rest
      else if s = ''..'' then resolveSegments fuel links (butlast acc) rest
      else (case map_of links (acc @ [s]) of
              None \<Rightarrow> resolveSegments fuel links (acc @ [s]) rest
            | Some target \<Rightarrow>
                (case fuel of
                   0 \<Rightarrow> None
                 | Suc f \<Rightarrow> resolveSegments f links [] (target @ rest))))"

definition canonical :: "FileSystem \<Rightarrow> string \<Rightarrow> string list option" where
  "canonical fs p =
     resolveSegments (maxLinks fs) (symlinks fs) []
       ((if startsWith p ''/'' then [] else cwd fs) @ splitPath p)"

text \<open>A canonical form as a string.\<close>

definition renderPath :: "string list \<Rightarrow> string" where
  "renderPath segs = (if segs = [] then ''/'' else concat (map (\<lambda>s. ''/'' @ s) segs))"

text \<open>Equal to, or a descendant of: the root's segments begin the candidate's.\<close>

fun isWithin :: "string list \<Rightarrow> string list \<Rightarrow> bool" where
  "isWithin [] c = True"
| "isWithin (r # rs) [] = False"
| "isWithin (r # rs) (c # cs) = (r = c \<and> isWithin rs cs)"

text \<open>
  A resolved path: no empty, \<open>.\<close> or \<open>..\<close> segment, and no part of it from the root
  down is a symbolic link.
\<close>

definition isResolved :: "FileSystem \<Rightarrow> string list \<Rightarrow> bool" where
  "isResolved fs c =
     ([] \<notin> set c \<and> ''.'' \<notin> set c \<and> ''..'' \<notin> set c
      \<and> list_all (\<lambda>k. k = [] \<or> map_of (symlinks fs) k = None) (prefixes c))"

definition validatePathSpec :: "FileSystem \<Rightarrow> string \<Rightarrow> string list \<Rightarrow> error + string" where
  "validatePathSpec fs p allowedRoots =
     (case canonical fs p of
        None \<Rightarrow> Inl (AccessDenied p)
      | Some c \<Rightarrow>
          if list_ex (\<lambda>r. case canonical fs r of None \<Rightarrow> False | Some cr \<Rightarrow> isWithin cr c)
               allowedRoots
          then Inr (renderPath c)
          else Inl (AccessDenied p))"

section \<open>What the walk is to compute\<close>

text \<open>
  The modification times of the files the walk reaches: regular files whose name is not
  passed over, in directories that are readable and not passed over. This follows the
  wording of the specification, not the loop.
\<close>

fun reachedMtimes :: "Node \<Rightarrow> real list"
  and reachedMtimesOf :: "Node list \<Rightarrow> real list" where
  "reachedMtimes (FileNode n st) =
     (if skipped n then [] else (case st of Inl _ \<Rightarrow> [] | Inr m \<Rightarrow> [m]))"
| "reachedMtimes (DirNode n es) = (if skipped n then [] else reachedMtimesOf es)"
| "reachedMtimes (UnreadableDir n e) = []"
| "reachedMtimes (OtherNode n) = []"
| "reachedMtimesOf [] = []"
| "reachedMtimesOf (n # ns) = reachedMtimes n @ reachedMtimesOf ns"

text \<open>Every \<open>fs.stat\<close> the walk would issue resolves.\<close>

fun statsResolve :: "Node \<Rightarrow> bool"
  and statsResolveAll :: "Node list \<Rightarrow> bool" where
  "statsResolve (FileNode n st) = (skipped n \<or> (case st of Inl _ \<Rightarrow> False | Inr _ \<Rightarrow> True))"
| "statsResolve (DirNode n es) = (skipped n \<or> statsResolveAll es)"
| "statsResolve (UnreadableDir n e) = True"
| "statsResolve (OtherNode n) = True"
| "statsResolveAll [] = True"
| "statsResolveAll (n # ns) = (statsResolve n \<and> statsResolveAll ns)"

section \<open>What a scan is to find\<close>

text \<open>
  For a child of the scanned directory: both detectors resolve for it if it passes the
  test of the loop, and it is tracked if it passes the test and is a repository or has a
  recognised technology.
\<close>

definition detectorsResolve :: "Env \<Rightarrow> string \<Rightarrow> Dirent \<Rightarrow> bool" where
  "detectorsResolve env rootPath entry =
     (\<not> candidate entry
      \<or> (\<not> isl (isGitRepo env (pathJoin env rootPath (dname entry)))
         \<and> \<not> isl (detectTechStack env (pathJoin env rootPath (dname entry)))))"

definition tracked :: "Env \<Rightarrow> string \<Rightarrow> Dirent \<Rightarrow> bool" where
  "tracked env rootPath entry =
     (candidate entry \<and>
      (case isGitRepo env (pathJoin env rootPath (dname entry)) of
         Inl _ \<Rightarrow> False
       | Inr g \<Rightarrow>
           (case detectTechStack env (pathJoin env rootPath (dname entry)) of
              Inl _ \<Rightarrow> False
            | Inr t \<Rightarrow> g \<or> truthy t)))"

text \<open>A record, and a store, with the time of the last scan blanked.\<close>

definition withoutScanTime :: "Project \<Rightarrow> Project" where
  "withoutScanTime r = r\<lparr>last_scanned := []\<rparr>"

definition storeWithoutScanTimes :: "Database \<Rightarrow> Database" where
  "storeWithoutScanTimes d = d\<lparr>projects := map withoutScanTime (projects d)\<rparr>"

text \<open>
  A stored row after a scan that reported the records \<open>ps\<close>: the values bound for the
  last record reported for its path, under the row's own id; the row itself if no record
  was reported for its path.
\<close>

definition refreshed :: "Project list \<Rightarrow> Project \<Rightarrow> Project" where
  "refreshed ps r =
     (case find (\<lambda>p. path p = path r) (rev ps) of
        None \<Rightarrow> r
      | Some p \<Rightarrow> (bindProject p)\<lparr>id' := id' r\<rparr>)"

section \<open>Concrete inputs\<close>

text \<open>A runner that answers from a table of command lines and rejects every other command.\<close>

definition gitAnswers :: "(string \<times> (error + string)) list \<Rightarrow> runner" where
  "gitAnswers table dir timeout cmd =
     (case map_of table cmd of
        Some r \<Rightarrow> r
      | None \<Rightarrow> Inl (ToolFailure ''command failed''))"

text \<open>A directory that is no repository, a repository without origin, one whose fetch fails.\<close>

definition noRepo :: runner where
  "noRepo = gitAnswers []"

definition noRemoteRepo :: runner where
  "noRemoteRepo = gitAnswers [(''git rev-parse --abbrev-ref HEAD'', Inr ''main\<newline>'')]"

definition offlineRepo :: runner where
  "offlineRepo = gitAnswers
     [(''git rev-parse --abbrev-ref HEAD'', Inr ''main\<newline>''),
      (''git remote get-url origin'', Inr ''git@host:demo.git\<newline>'')]"

text \<open>A repository whose HEAD is the merge base and whose remote has moved on.\<close>

definition behindRepo :: runner where
  "behindRepo = gitAnswers
     [(''git rev-parse --abbrev-ref HEAD'', Inr ''main\<newline>''),
      (''git remote get-url origin'', Inr ''git@host:demo.git\<newline>''),
      (''git fetch origin main'', Inr []),
      (''git rev-parse HEAD'', Inr ''a1f3\<newline>''),
      (''git rev-parse origin/main'', Inr ''9c2e\<newline>''),
      (''git merge-base HEAD origin/main'', Inr ''a1f3\<newline>'')]"

text \<open>A store with one project and one stored count: 5 changes on 2024-01-01.\<close>

definition statsBefore :: Database where
  "statsBefore = emptyDatabase
     \<lparr>activity_stats := [\<lparr>stat_id = 1, project_id = 1, date = ''2024-01-01'', changes_count = 5\<rparr>],
      activity_stats_seq := 1\<rparr>"

text \<open>
  An environment with an empty home directory, no readable file and no repository; the
  clock prints one more stroke at each reading, and strings compare by code unit.
\<close>

definition compareCodeUnits :: "string \<Rightarrow> string \<Rightarrow> int" where
  "compareCodeUnits a b = (if a < b then - 1 else if a = b then 0 else 1)"

definition bareEnv :: Env where
  "bareEnv =
     \<lparr>HOME = ''/home/u'',
      validatePath = (\<lambda>p roots. Inr p),
      readdir = (\<lambda>p. Inr []),
      pathJoin = (\<lambda>a b. a @ ''/'' @ b),
      isGitRepo = (\<lambda>p. Inr False),
      detectTechStack = (\<lambda>p. Inr None),
      access = (\<lambda>p. Inl (ToolFailure ''ENOENT'')),
      readFile = (\<lambda>p. Inl (ToolFailure ''ENOENT'')),
      exec = noRepo,
      clock = (\<lambda>n. ''tick '' @ replicate n (CHR ''I'')),
      listing = (\<lambda>p. Inl (ToolFailure ''ENOENT'')),
      toISOString = (\<lambda>t. if t = 1700000000000 then ''2023-11-14T22:13:20.000Z'' else ''other''),
      localeCompare = compareCodeUnits\<rparr>"

definition emptyWorld :: World where
  "emptyWorld = \<lparr>db = emptyDatabase, ticks = 0, logs = []\<rparr>"

text \<open>A store of 51 projects.\<close>

definition sampleProject :: "nat \<Rightarrow> Project" where
  "sampleProject i =
     \<lparr>id' = Some (Suc i), name = ''demo'', path = ''/home/u/'' @ replicate (Suc i) (CHR ''p''),
      status = ''active'', is_git = False, tech_stack = Some ''Node.js'',
      last_scanned = ''tick '', description = None, remote_url = None, sync_status = None,
      branch_name = None, last_activity_date = None\<rparr>"

definition fiftyOneProjects :: Database where
  "fiftyOneProjects = emptyDatabase\<lparr>projects := map sampleProject [0..<51], projects_seq := 51\<rparr>"

text \<open>
  A project tree: two source files (the later one in a subdirectory), a hidden file, a
  dependency cache and a directory that cannot be read, the last three around newer files
  or none.
\<close>

definition sampleTree :: "Node list" where
  "sampleTree =
     [FileNode ''a.txt'' (Inr 1600000000000),
      FileNode ''.env'' (Inr 1800000000000),
      UnreadableDir ''locked'' (ToolFailure ''EACCES''),
      DirNode ''node_modules'' [FileNode ''index.js'' (Inr 1900000000000)],
      DirNode ''src'' [FileNode ''b.txt'' (Inr 1700000000000)]]"

definition treeEnv :: "Node list \<Rightarrow> Env" where
  "treeEnv es = bareEnv\<lparr>listing := (\<lambda>p. Inr es)\<rparr>"

text \<open>
  A repository with three commits in the window, two on 2024-01-01 and one on
  2024-01-02, listed oldest first.
\<close>

definition commitsEnv :: Env where
  "commitsEnv = bareEnv
     \<lparr>access := (\<lambda>p. Inr ()),
      exec := gitAnswers [(gitLogWindow, Inr ''2024-01-01\<newline>2024-01-01\<newline>2024-01-02'')]\<rparr>"

text \<open>
  A home directory with two project directories: the detector rejects for the first and
  recognises the second.
\<close>

definition twoChildren :: "Dirent list" where
  "twoChildren = [\<lparr>dname = ''alpha'', isDirectory = True\<rparr>, \<lparr>dname = ''beta'', isDirectory = True\<rparr>]"

definition brokenDetectorEnv :: Env where
  "brokenDetectorEnv = bareEnv
     \<lparr>readdir := (\<lambda>p. Inr twoChildren),
      detectTechStack := (\<lambda>p. if p = ''/home/u/alpha'' then Inl (ToolFailure ''EACCES'')
                               else Inr (Some ''Node.js''))\<rparr>"

text \<open>
  The same directory with a detector that recognises both; \<open>alpha\<close> is a repository
  without commits and no readme can be read.
\<close>

definition twoProjectsEnv :: Env where
  "twoProjectsEnv = bareEnv
     \<lparr>readdir := (\<lambda>p. Inr twoChildren),
      isGitRepo := (\<lambda>p. Inr (p = ''/home/u/alpha'')),
      detectTechStack := (\<lambda>p. Inr (Some ''Node.js''))\<rparr>"

text \<open>What the first scan of that directory from the empty store reports and leaves.\<close>

definition scannedRecord :: "string \<Rightarrow> bool \<Rightarrow> string \<Rightarrow> Project" where
  "scannedRecord n git now =
     \<lparr>id' = None, name = n, path = ''/home/u/'' @ n, status = ''active'', is_git = git,
      tech_stack = Some ''Node.js'', last_scanned = now, description = None,
      remote_url = None, sync_status = (if git then Some ''Unknown'' else None),
      branch_name = None, last_activity_date = None\<rparr>"

definition afterFirstScan :: World where
  "afterFirstScan =
     \<lparr>db = emptyDatabase
        \<lparr>projects := [(scannedRecord ''alpha'' True ''tick '')\<lparr>id' := Some 1\<rparr>,
                      (scannedRecord ''beta'' False ''tick I'')\<lparr>id' := Some 2\<rparr>],
         projects_seq := 2\<rparr>,
      ticks = 2,
      logs = [ScannedProject ''alpha'' (Some ''Node.js'') (Some ''Unknown''),
              ScannedProject ''beta'' (Some ''Node.js'') None]\<rparr>"

text \<open>What a second scan of that directory leaves.\<close>

definition afterSecondScan :: World where
  "afterSecondScan =
     \<lparr>db = emptyDatabase
        \<lparr>projects := [(scannedRecord ''alpha'' True ''tick II'')\<lparr>id' := Some 1\<rparr>,
                      (scannedRecord ''beta'' False ''tick III'')\<lparr>id' := Some 2\<rparr>],
         projects_seq := 4\<rparr>,
      ticks = 4,
      logs = [ScannedProject ''alpha'' (Some ''Node.js'') (Some ''Unknown''),
              ScannedProject ''beta'' (Some ''Node.js'') None,
              ScannedProject ''alpha'' (Some ''Node.js'') (Some ''Unknown''),
              ScannedProject ''beta'' (Some ''Node.js'') None]\<rparr>"

text \<open>A filesystem where \<open>/home/u/repo/link\<close> is a symbolic link to \<open>/etc\<close>.\<close>

definition linkedFs :: FileSystem where
  "linkedFs = \<lparr>symlinks = [([''home'', ''u'', ''repo'', ''link''], [''etc''])],
               cwd = [''home'', ''u'', ''repo''], maxLinks = 40\<rparr>"

text \<open>
  The same two directories, \<open>alpha\<close> now a repository behind its remote; and the same
  again with the network gone, so that the fetch fails. The two environments differ in
  the answers of git only.
\<close>

definition onlineEnv :: Env where
  "onlineEnv = twoProjectsEnv\<lparr>exec := behindRepo\<rparr>"

definition offlineEnv :: Env where
  "offlineEnv = twoProjectsEnv\<lparr>exec := offlineRepo\<rparr>"

section \<open>Properties of the synchronization classifier\<close>

lemma trim_main: "trim ''main\<newline>'' = ''main''"
  by (simp add: trim_def isWhiteSpace_def)

lemma getGitInfo_body_returns: "\<exists>r. getGitInfo_body run dirPath = Inr r"
  by (simp add: getGitInfo_body_def split: sum.split)

lemma getGitInfo_eq_body: "getGitInfo run dirPath = getGitInfo_body run dirPath"
  using getGitInfo_body_returns [of run dirPath] by (auto simp: getGitInfo_def)

lemma checkSync_failure:
  assumes "run dirPath (Some 10000) (''git fetch origin '' @ br) = Inl e
         \<or> (\<exists>o1. run dirPath (Some 10000) (''git fetch origin '' @ br) = Inr o1
              \<and> run dirPath (Some 5000) ''git rev-parse HEAD'' = Inl e)
         \<or> (\<exists>o1 o2. run dirPath (Some 10000) (''git fetch origin '' @ br) = Inr o1
              \<and> run dirPath (Some 5000) ''git rev-parse HEAD'' = Inr o2
              \<and> run dirPath (Some 5000) (''git rev-parse origin/'' @ br) = Inl e)
         \<or> (\<exists>o1 o2 o3. run dirPath (Some 10000) (''git fetch origin '' @ br) = Inr o1
              \<and> run dirPath (Some 5000) ''git rev-parse HEAD'' = Inr o2
              \<and> run dirPath (Some 5000) (''git rev-parse origin/'' @ br) = Inr o3
              \<and> run dirPath (Some 5000) (''git merge-base HEAD origin/'' @ br) = Inl e)"
  shows "checkSync run dirPath br = Inl e"
  using assms by (auto simp: checkSync_def)

text \<open>
  Claim C1. Whatever the repository path and whatever the git commands answer: when the
  branch query fails the result is the all-null record with status Unknown; when the
  branch resolves and the origin query fails it is the branch with no URL and status
  NoRemote; and when the fetch and the three hash queries succeed the status follows the
  table on the trimmed hashes: Synced if local = remote, else Behind if local = base, else
  Ahead if remote = base, else Diverged, with the branch and URL returned.
\<close>

theorem getGitInfo_decision_table:
  "(\<forall>e. run dirPath (Some 5000) ''git rev-parse --abbrev-ref HEAD'' = Inl e \<longrightarrow>
      getGitInfo run dirPath =
        Inr (\<lparr>remoteUrl = None, branch = None, syncStatus = Unknown\<rparr>, []))
   \<and> (\<forall>b e. run dirPath (Some 5000) ''git rev-parse --abbrev-ref HEAD'' = Inr b
        \<and> run dirPath (Some 5000) ''git remote get-url origin'' = Inl e \<longrightarrow>
      getGitInfo run dirPath =
        Inr (\<lparr>remoteUrl = None, branch = Some (trim b), syncStatus = NoRemote\<rparr>, []))
   \<and> (\<forall>b u f l r m. run dirPath (Some 5000) ''git rev-parse --abbrev-ref HEAD'' = Inr b
        \<and> run dirPath (Some 5000) ''git remote get-url origin'' = Inr u
        \<and> run dirPath (Some 10000) (''git fetch origin '' @ trim b) = Inr f
        \<and> run dirPath (Some 5000) ''git rev-parse HEAD'' = Inr l
        \<and> run dirPath (Some 5000) (''git rev-parse origin/'' @ trim b) = Inr r
        \<and> run dirPath (Some 5000) (''git merge-base HEAD origin/'' @ trim b) = Inr m \<longrightarrow>
      getGitInfo run dirPath =
        Inr (\<lparr>remoteUrl = Some (trim u), branch = Some (trim b),
              syncStatus = (if trim l = trim r then Synced
                            else if trim l = trim m then Behind
                            else if trim r = trim m then Ahead
                            else Diverged)\<rparr>, []))"
  by (simp add: getGitInfo_eq_body getGitInfo_body_def checkSync_def classify_def)

theorem getGitInfo_decision_table_witness:
  "getGitInfo noRepo ''/home/u/demo'' =
     Inr (\<lparr>remoteUrl = None, branch = None, syncStatus = Unknown\<rparr>, [])
   \<and> getGitInfo noRemoteRepo ''/home/u/demo'' =
     Inr (\<lparr>remoteUrl = None, branch = Some ''main'', syncStatus = NoRemote\<rparr>, [])
   \<and> getGitInfo behindRepo ''/home/u/demo'' =
     Inr (\<lparr>remoteUrl = Some ''git@host:demo.git'', branch = Some ''main'',
           syncStatus = Behind\<rparr>, [])"
proof -
  have a: "noRepo ''/home/u/demo'' (Some 5000) ''git rev-parse --abbrev-ref HEAD''
             = Inl (ToolFailure ''command failed'')"
    by (simp add: noRepo_def gitAnswers_def)
  have b: "noRemoteRepo ''/home/u/demo'' (Some 5000) ''git rev-parse --abbrev-ref HEAD''
             = Inr ''main\<newline>''
         \<and> noRemoteRepo ''/home/u/demo'' (Some 5000) ''git remote get-url origin''
             = Inl (ToolFailure ''command failed'')"
    by (simp add: noRemoteRepo_def gitAnswers_def)
  have c: "behindRepo ''/home/u/demo'' (Some 5000) ''git rev-parse --abbrev-ref HEAD''
             = Inr ''main\<newline>''
         \<and> behindRepo ''/home/u/demo'' (Some 5000) ''git remote get-url origin''
             = Inr ''git@host:demo.git\<newline>''
         \<and> behindRepo ''/home/u/demo'' (Some 10000) (''git fetch origin '' @ trim ''main\<newline>'')
             = Inr []
         \<and> behindRepo ''/home/u/demo'' (Some 5000) ''git rev-parse HEAD'' = Inr ''a1f3\<newline>''
         \<and> behindRepo ''/home/u/demo'' (Some 5000) (''git rev-parse origin/'' @ trim ''main\<newline>'')
             = Inr ''9c2e\<newline>''
         \<and> behindRepo ''/home/u/demo'' (Some 5000)
              (''git merge-base HEAD origin/'' @ trim ''main\<newline>'') = Inr ''a1f3\<newline>''"
    by (simp add: behindRepo_def gitAnswers_def trim_main)
  have 1: "getGitInfo noRepo ''/home/u/demo'' =
     Inr (\<lparr>remoteUrl = None, branch = None, syncStatus = Unknown\<rparr>, [])"
    using getGitInfo_decision_table [of noRepo "''/home/u/demo''"] a by blast
  have 2: "getGitInfo noRemoteRepo ''/home/u/demo'' =
     Inr (\<lparr>remoteUrl = None, branch = Some (trim ''main\<newline>''), syncStatus = NoRemote\<rparr>, [])"
    using getGitInfo_decision_table [of noRemoteRepo "''/home/u/demo''"] b by blast
  have 3: "getGitInfo behindRepo ''/home/u/demo'' =
        Inr (\<lparr>remoteUrl = Some (trim ''git@host:demo.git\<newline>''), branch = Some (trim ''main\<newline>''),
              syncStatus = (if trim ''a1f3\<newline>'' = trim ''9c2e\<newline>'' then Synced
                            else if trim ''a1f3\<newline>'' = trim ''a1f3\<newline>'' then Behind
                            else if trim ''9c2e\<newline>'' = trim ''a1f3\<newline>'' then Ahead
                            else Diverged)\<rparr>, [])"
    using getGitInfo_decision_table [of behindRepo "''/home/u/demo''"] c by blast
  have t: "trim ''git@host:demo.git\<newline>'' = ''git@host:demo.git''"
      "trim ''a1f3\<newline>'' = ''a1f3''" "trim ''9c2e\<newline>'' = ''9c2e''"
    by (simp_all add: trim_def isWhiteSpace_def)
  show ?thesis using 1 2 3 by (simp add: t trim_main)
qed

text \<open>
  Claim C7. Once the branch and the origin URL are resolved, a failure of the fetch or of
  any of the three hash queries gives status Unknown with the resolved branch and URL in
  the record; the failure is logged and the call still returns a record instead of an
  error.
\<close>

theorem getGitInfo_sync_failure:
  assumes "run dirPath (Some 5000) ''git rev-parse --abbrev-ref HEAD'' = Inr b"
    and "run dirPath (Some 5000) ''git remote get-url origin'' = Inr u"
    and "run dirPath (Some 10000) (''git fetch origin '' @ trim b) = Inl e
         \<or> (\<exists>o1. run dirPath (Some 10000) (''git fetch origin '' @ trim b) = Inr o1
              \<and> run dirPath (Some 5000) ''git rev-parse HEAD'' = Inl e)
         \<or> (\<exists>o1 o2. run dirPath (Some 10000) (''git fetch origin '' @ trim b) = Inr o1
              \<and> run dirPath (Some 5000) ''git rev-parse HEAD'' = Inr o2
              \<and> run dirPath (Some 5000) (''git rev-parse origin/'' @ trim b) = Inl e)
         \<or> (\<exists>o1 o2 o3. run dirPath (Some 10000) (''git fetch origin '' @ trim b) = Inr o1
              \<and> run dirPath (Some 5000) ''git rev-parse HEAD'' = Inr o2
              \<and> run dirPath (Some 5000) (''git rev-parse origin/'' @ trim b) = Inr o3
              \<and> run dirPath (Some 5000) (''git merge-base HEAD origin/'' @ trim b) = Inl e)"
  shows "getGitInfo run dirPath =
           Inr (\<lparr>remoteUrl = Some (trim u), branch = Some (trim b), syncStatus = Unknown\<rparr>,
                [SyncCheckFailed dirPath e])"
proof -
  have "checkSync run dirPath (trim b) = Inl e"
    using assms(3) by (rule checkSync_failure)
  with assms(1,2) show ?thesis
    by (simp add: getGitInfo_eq_body getGitInfo_body_def)
qed

theorem getGitInfo_sync_failure_witness:
  "getGitInfo offlineRepo ''/home/u/demo'' =
     Inr (\<lparr>remoteUrl = Some ''git@host:demo.git'', branch = Some ''main'', syncStatus = Unknown\<rparr>,
          [SyncCheckFailed ''/home/u/demo'' (ToolFailure ''command failed'')])"
proof -
  have a: "offlineRepo ''/home/u/demo'' (Some 5000) ''git rev-parse --abbrev-ref HEAD''
             = Inr ''main\<newline>''"
    and b: "offlineRepo ''/home/u/demo'' (Some 5000) ''git remote get-url origin''
             = Inr ''git@host:demo.git\<newline>''"
    and c: "offlineRepo ''/home/u/demo'' (Some 10000) (''git fetch origin '' @ trim ''main\<newline>'')
             = Inl (ToolFailure ''command failed'')"
    by (simp_all add: offlineRepo_def gitAnswers_def trim_main)
  have t: "trim ''git@host:demo.git\<newline>'' = ''git@host:demo.git''"
    by (simp add: trim_def isWhiteSpace_def)
  show ?thesis
    using getGitInfo_sync_failure [of offlineRepo "''/home/u/demo''" "''main\<newline>''"
        "''git@host:demo.git\<newline>''" "ToolFailure ''command failed''"] a b c
    by (simp add: t trim_main)
qed

section \<open>Properties of the activity table\<close>

lemma storedCount_map_of:
  "storedCount d p day =
     map_of (map (\<lambda>r. ((project_id r, date r), changes_count r)) (activity_stats d)) (p, day)"
proof -
  have "map_option changes_count (find (\<lambda>r. project_id r = p \<and> date r = day) rows) =
        map_of (map (\<lambda>r. ((project_id r, date r), changes_count r)) rows) (p, day)" for rows
    by (induction rows) auto
  then show ?thesis by (simp add: storedCount_def)
qed

lemma map_of_overwrite:
  "map_of (map (\<lambda>r. ((project_id r, date r), changes_count r))
       (map (\<lambda>r. if project_id r = p \<and> date r = day then r\<lparr>changes_count := c\<rparr> else r) rows)) k =
   (if k = (p, day) \<and> k \<in> set (map (\<lambda>r. (project_id r, date r)) rows) then Some c
    else map_of (map (\<lambda>r. ((project_id r, date r), changes_count r)) rows) k)"
  by (induction rows) auto

lemma map_of_fresh:
  "k \<notin> set (map (\<lambda>r. (project_id r, date r)) rows) \<Longrightarrow>
   map_of (map (\<lambda>r. ((project_id r, date r), changes_count r)) rows) k = None"
  by (induction rows) auto

lemma storedCount_upsertStat:
  "storedCount (upsertStat p st d) q day =
     (if q = p \<and> day = fst st then Some (snd st) else storedCount d q day)"
  by (auto simp add: storedCount_map_of upsertStat_def map_of_overwrite map_of_fresh
      map_add_def simp del: map_map split: option.splits)

lemma keys_overwrite:
  "map (\<lambda>r. (project_id r, date r))
     (map (\<lambda>r. if project_id r = p \<and> date r = day then r\<lparr>changes_count := c\<rparr> else r) rows)
   = map (\<lambda>r. (project_id r, date r)) rows"
  by (induction rows) auto

lemma distinct_upsertStat:
  assumes "distinct (map (\<lambda>r. (project_id r, date r)) (activity_stats d))"
  shows "distinct (map (\<lambda>r. (project_id r, date r)) (activity_stats (upsertStat p st d)))"
proof (cases "(p, fst st) \<in> set (map (\<lambda>r. (project_id r, date r)) (activity_stats d))")
  case True
  then show ?thesis
    using assms by (simp add: upsertStat_def keys_overwrite del: map_map set_map)
next
  case False
  then show ?thesis
    using assms by (simp add: upsertStat_def del: map_map set_map)
qed

lemma distinct_insertActivityStats:
  "distinct (map (\<lambda>r. (project_id r, date r)) (activity_stats d)) \<Longrightarrow>
   distinct (map (\<lambda>r. (project_id r, date r)) (activity_stats (insertActivityStats p stats d)))"
  unfolding insertActivityStats_def
  by (induction stats arbitrary: d) (simp_all add: distinct_upsertStat)

lemma storedCount_insertActivityStats:
  "storedCount (insertActivityStats p stats d) q day =
     (if q = p then (case map_of (rev stats) day of Some c \<Rightarrow> Some c | None \<Rightarrow> storedCount d q day)
      else storedCount d q day)"
  unfolding insertActivityStats_def
proof (induction stats arbitrary: d)
  case Nil
  then show ?case by simp
next
  case (Cons st stats)
  show ?case
    by (cases st) (auto simp: Cons.IH storedCount_upsertStat map_of_append map_add_def
        split: option.splits)
qed

text \<open>
  Claim C9. Table \<open>activity_stats\<close> keeps at most one row per (project, day) across a
  batch insertion, and after the batch the count stored for a day of the batch is the
  count the batch gave last for that day, whatever was stored before: the stored count
  is replaced and never added to. Days outside the batch and other projects keep theirs.
\<close>

theorem insertActivityStats_last_write_wins:
  assumes "distinct (map (\<lambda>r. (project_id r, date r)) (activity_stats d))"
  shows "distinct (map (\<lambda>r. (project_id r, date r))
                   (activity_stats (insertActivityStats p stats d)))
       \<and> storedCount (insertActivityStats p stats d) q day =
           (if q = p
            then (case map_of (rev stats) day of
                    Some c \<Rightarrow> Some c
                  | None \<Rightarrow> storedCount d q day)
            else storedCount d q day)"
  using assms by (simp add: distinct_insertActivityStats storedCount_insertActivityStats)

theorem insertActivityStats_last_write_wins_witness:
  "distinct (map (\<lambda>r. (project_id r, date r)) (activity_stats statsBefore))
   \<and> storedCount statsBefore 1 ''2024-01-01'' = Some 5
   \<and> distinct (map (\<lambda>r. (project_id r, date r))
        (activity_stats (insertActivityStats 1 [(''2024-01-01'', 2), (''2024-01-02'', 1)] statsBefore)))
   \<and> storedCount (insertActivityStats 1 [(''2024-01-01'', 2), (''2024-01-02'', 1)] statsBefore)
        1 ''2024-01-01'' = Some 2"
proof -
  have h: "distinct (map (\<lambda>r. (project_id r, date r)) (activity_stats statsBefore))"
    by (simp add: statsBefore_def emptyDatabase_def)
  have s: "storedCount statsBefore 1 ''2024-01-01'' = Some 5"
    by (simp add: storedCount_def statsBefore_def emptyDatabase_def)
  show ?thesis
    using insertActivityStats_last_write_wins [OF h, of 1
        "[(''2024-01-01'', 2), (''2024-01-02'', 1)]" 1 "''2024-01-01''"] h s
    by simp
qed

section \<open>Properties of the paginated listing\<close>

lemma length_selectPage:
  "length (selectPage d lmt off) =
     (if lmt < 0 then length (projects d) - nat off
      else min (nat lmt) (length (projects d) - nat off))"
  by (simp add: selectPage_def Let_def min.commute)

text \<open>
  What holds of every call: the reported limit is the requested one capped at 50, with
  20 and 0 as defaults, and \<open>has_more\<close> compares offset plus reported limit with the
  total; a limit that is not negative bounds the page by 50 rows.
\<close>

lemma list_projects_pagination:
  "limit (pagination (list_projects d l k)) = min (case l of None \<Rightarrow> 20 | Some n \<Rightarrow> n) 50
   \<and> offset (pagination (list_projects d l k)) = (case k of None \<Rightarrow> 0 | Some n \<Rightarrow> n)
   \<and> total' (pagination (list_projects d l k)) = int (length (projects d))
   \<and> has_more (pagination (list_projects d l k)) =
       (offset (pagination (list_projects d l k)) + limit (pagination (list_projects d l k))
          < total' (pagination (list_projects d l k)))"
  by (simp add: list_projects_def Let_def)

lemma list_projects_page_bound:
  "0 \<le> (case l of None \<Rightarrow> 20 | Some n \<Rightarrow> n) \<Longrightarrow> length (data (list_projects d l k)) \<le> 50"
  by (auto simp: list_projects_def Let_def length_selectPage split: option.splits)

text \<open>
  Claim C6, at the input where the code leaves it: with 51 stored projects, a requested
  limit of -1 and offset 0, the handler reports limit -1 and returns all 51 rows, one more
  than the cap of 50 the claim gives every call.
\<close>

theorem list_projects_negative_limit:
  "length (data (list_projects fiftyOneProjects (Some (- 1)) (Some 0))) = 51
   \<and> limit (pagination (list_projects fiftyOneProjects (Some (- 1)) (Some 0))) = - 1
   \<and> total' (pagination (list_projects fiftyOneProjects (Some (- 1)) (Some 0))) = 51
   \<and> has_more (pagination (list_projects fiftyOneProjects (Some (- 1)) (Some 0)))"
  by (simp add: list_projects_def Let_def length_selectPage fiftyOneProjects_def)

section \<open>Properties of the analysis of an unknown path\<close>

text \<open>
  Claim C10, as the code has it. When no project is stored under the path,
  \<open>analyzeProjectActivity\<close> writes one log entry and returns normally: the store is
  unchanged (no project update, no activity row), no error reaches the caller, and the
  tool handler answers that the path was analysed.
\<close>

theorem analyzeProjectActivity_unknown_path:
  assumes "getProjectByPath p (db w) = None"
  shows "analyzeProjectActivity env p w = (Inr (), w\<lparr>logs := logs w @ [ProjectNotFound p]\<rparr>)
       \<and> db (snd (analyzeProjectActivity env p w)) = db w
       \<and> (p \<noteq> [] \<longrightarrow>
            analyze_project_activity env (Some p) w =
              (Inr (AnalyzedOne p), w\<lparr>logs := logs w @ [ProjectNotFound p]\<rparr>))"
  using assms by (simp add: analyzeProjectActivity_def analyze_project_activity_def)

theorem analyzeProjectActivity_unknown_path_witness:
  "getProjectByPath ''/home/u/gone'' (db emptyWorld) = None
   \<and> analyzeProjectActivity bareEnv ''/home/u/gone'' emptyWorld =
       (Inr (), emptyWorld\<lparr>logs := [ProjectNotFound ''/home/u/gone'']\<rparr>)
   \<and> db (snd (analyzeProjectActivity bareEnv ''/home/u/gone'' emptyWorld)) = emptyDatabase
   \<and> analyze_project_activity bareEnv (Some ''/home/u/gone'') emptyWorld =
       (Inr (AnalyzedOne ''/home/u/gone''), emptyWorld\<lparr>logs := [ProjectNotFound ''/home/u/gone'']\<rparr>)"
proof -
  have h: "getProjectByPath ''/home/u/gone'' (db emptyWorld) = None"
    by (simp add: getProjectByPath_def emptyWorld_def emptyDatabase_def)
  show ?thesis
    using analyzeProjectActivity_unknown_path [OF h, of bareEnv] h
    by (simp add: emptyWorld_def)
qed

text \<open>
  The claim as stated fails here: the call for a path without a record does not end in
  \<open>NotFound\<close>, and the handler's answer is the one it gives after an analysis.
\<close>

theorem analyzeProjectActivity_signals_nothing:
  "getProjectByPath ''/home/u/gone'' (db emptyWorld) = None
   \<and> fst (analyzeProjectActivity bareEnv ''/home/u/gone'' emptyWorld) \<noteq> Inl (NotFound ''/home/u/gone'')
   \<and> fst (analyze_project_activity bareEnv (Some ''/home/u/gone'') emptyWorld) =
       Inr (AnalyzedOne ''/home/u/gone'')"
  by (simp add: analyzeProjectActivity_def analyze_project_activity_def getProjectByPath_def
      emptyWorld_def emptyDatabase_def)

section \<open>Properties of the fallback walk\<close>

lemma walk_fold_max:
  "statsResolve n \<Longrightarrow> walkEntry n l = (None, fold max (reachedMtimes n) l)"
  "statsResolveAll ns \<Longrightarrow> walkEntries ns l = (None, fold max (reachedMtimesOf ns) l)"
proof (induction n l and ns l rule: walkEntry_walkEntries.induct)
  case (1 n st latest)
  then show ?case by (cases st) (auto simp: max_def)
qed auto

lemma fold_max_Max: "fold max xs (l::real) = Max (insert l (set xs))"
  using Max.set_eq_fold [of l xs] by simp

lemma latestMtime_Max:
  "statsResolveAll es \<Longrightarrow> latestMtime (Inr es) = Max (insert 0 (set (reachedMtimesOf es)))"
  by (simp add: latestMtime_def walk_fold_max fold_max_Max)

lemma Max_insert_0:
  fixes xs :: "real list"
  shows "Max (insert 0 (set xs)) = (if \<exists>m\<in>set xs. 0 < m then Max (set xs) else 0)"
proof (cases "\<exists>m\<in>set xs. 0 < m")
  case True
  then obtain m where m: "m \<in> set xs" "0 < m" by blast
  then have ne: "set xs \<noteq> {}" by auto
  have "m \<le> Max (set xs)" using m by simp
  then have "0 \<le> Max (set xs)" using m by linarith
  then have "max 0 (Max (set xs)) = Max (set xs)" by (simp add: max_def)
  then show ?thesis using True ne by simp
next
  case False
  then have le: "\<forall>m\<in>insert 0 (set xs). m \<le> 0" by auto
  have "Max (insert 0 (set xs)) \<in> insert 0 (set xs)"
    by (rule Max_in) simp_all
  with le have "Max (insert 0 (set xs)) \<le> 0" by blast
  moreover have "0 \<le> Max (insert 0 (set xs))"
    by (rule Max_ge) simp_all
  ultimately have "Max (insert 0 (set xs)) = 0" by linarith
  then show ?thesis using False by simp
qed

text \<open>
  Claim C8, as the code has it. When the project directory cannot be read the result is
  null. Otherwise, if every \<open>fs.stat\<close> the walk issues resolves, the result is the
  timestamp of the largest modification time among the files reached (regular files in
  readable directories, passing over every entry, file or directory, whose name starts
  with a dot or is node_modules, dist, build or coverage; an unreadable subdirectory
  contributes nothing and the walk goes on), provided that time is positive; it is null
  when no reached file has a positive modification time, in particular when none is
  reached.
\<close>

theorem getFileActivity_latest:
  "(\<forall>e. listing env dirPath = Inl e \<longrightarrow> getFileActivity env dirPath = None)
   \<and> (\<forall>es. listing env dirPath = Inr es \<and> statsResolveAll es \<longrightarrow>
        getFileActivity env dirPath =
          (if \<exists>m\<in>set (reachedMtimesOf es). 0 < m
           then Some (toISOString env (Max (set (reachedMtimesOf es))))
           else None))"
proof (intro conjI allI impI)
  fix e assume "listing env dirPath = Inl e"
  then show "getFileActivity env dirPath = None"
    by (simp add: getFileActivity_def latestMtime_def)
next
  fix es assume a: "listing env dirPath = Inr es \<and> statsResolveAll es"
  then have l: "latestMtime (listing env dirPath) =
      (if \<exists>m\<in>set (reachedMtimesOf es). 0 < m then Max (set (reachedMtimesOf es)) else 0)"
    by (simp only: latestMtime_Max Max_insert_0)
  show "getFileActivity env dirPath =
          (if \<exists>m\<in>set (reachedMtimesOf es). 0 < m
           then Some (toISOString env (Max (set (reachedMtimesOf es))))
           else None)"
  proof (cases "\<exists>m\<in>set (reachedMtimesOf es). 0 < m")
    case True
    then obtain m where m: "m \<in> set (reachedMtimesOf es)" "0 < m" by blast
    then have "m \<le> Max (set (reachedMtimesOf es))" by simp
    then have "Max (set (reachedMtimesOf es)) \<noteq> 0" using m by linarith
    then show ?thesis using True l by (simp add: getFileActivity_def Let_def)
  next
    case False
    then show ?thesis using l by (simp add: getFileActivity_def Let_def)
  qed
qed

lemma skipped_samples:
  "\<not> skipped ''a.txt''" "\<not> skipped ''b.txt''" "\<not> skipped ''src''" "skipped ''.env''"
  "skipped ''node_modules''" "\<not> skipped ''notes.txt''" "skipped ''build''"
  by (simp_all add: skipped_def startsWith_def)

theorem getFileActivity_latest_witness:
  "listing (treeEnv sampleTree) ''/home/u/demo'' = Inr sampleTree
   \<and> statsResolveAll sampleTree
   \<and> reachedMtimesOf sampleTree = [1600000000000, 1700000000000]
   \<and> getFileActivity (treeEnv sampleTree) ''/home/u/demo'' = Some ''2023-11-14T22:13:20.000Z''
   \<and> listing bareEnv ''/home/u/demo'' = Inl (ToolFailure ''ENOENT'')
   \<and> getFileActivity bareEnv ''/home/u/demo'' = None"
proof -
  have a: "listing (treeEnv sampleTree) ''/home/u/demo'' = Inr sampleTree"
    by (simp add: treeEnv_def)
  have b: "statsResolveAll sampleTree"
    by (simp add: sampleTree_def skipped_samples)
  have c: "reachedMtimesOf sampleTree = [1600000000000, 1700000000000]"
    by (simp add: sampleTree_def skipped_samples)
  have d: "listing bareEnv ''/home/u/demo'' = Inl (ToolFailure ''ENOENT'')"
    by (simp add: bareEnv_def)
  have t: "toISOString (treeEnv sampleTree) 1700000000000 = ''2023-11-14T22:13:20.000Z''"
    by (simp add: treeEnv_def bareEnv_def)
  have 1: "getFileActivity (treeEnv sampleTree) ''/home/u/demo'' = Some ''2023-11-14T22:13:20.000Z''"
    using getFileActivity_latest [of "treeEnv sampleTree" "''/home/u/demo''"] a b
    by (simp add: c t)
  have 2: "getFileActivity bareEnv ''/home/u/demo'' = None"
    using getFileActivity_latest [of bareEnv "''/home/u/demo''"] d by blast
  show ?thesis using a b c d 1 2 by simp
qed

text \<open>
  The claim as stated fails on two trees. A single file last modified at the epoch is a
  readable file, and the result is null instead of its time. A regular file named
  \<open>build\<close> is no directory, yet it is passed over, and the older file gives the result.
\<close>

theorem getFileActivity_not_the_maximum:
  "getFileActivity (treeEnv [FileNode ''notes.txt'' (Inr 0)]) ''/home/u/demo'' = None
   \<and> getFileActivity
       (treeEnv [FileNode ''build'' (Inr 1800000000000), FileNode ''a.txt'' (Inr 1700000000000)])
       ''/home/u/demo'' = Some ''2023-11-14T22:13:20.000Z''"
  by (simp add: getFileActivity_def latestMtime_def treeEnv_def bareEnv_def skipped_samples)

section \<open>Properties of the commit histogram\<close>

lemma map_of_bump:
  "map_of (bump day m) k =
     (if k = day then Some (case map_of m day of None \<Rightarrow> 1 | Some c \<Rightarrow> c + 1) else map_of m k)"
  by (induction m) auto

lemma keys_bump: "fst ` set (bump day m) = insert day (fst ` set m)"
  by (induction day m rule: bump.induct) auto

lemma distinct_bump: "distinct (map fst m) \<Longrightarrow> distinct (map fst (bump day m))"
proof (induction m)
  case Nil
  then show ?case by simp
next
  case (Cons a m)
  obtain k c where a: "a = (k, c)" by (cases a)
  have "k \<noteq> day \<Longrightarrow> k \<notin> fst ` set m \<Longrightarrow> k \<notin> fst ` set (bump day m)"
    by (simp add: keys_bump)
  with Cons show ?case by (auto simp: a)
qed

lemma map_of_fold_bump:
  "map_of (fold bump ls m) k =
     (if k \<in> set ls
      then Some ((case map_of m k of None \<Rightarrow> 0 | Some c \<Rightarrow> c) + count_list ls k)
      else map_of m k)"
proof (induction ls arbitrary: m)
  case Nil
  then show ?case by simp
next
  case (Cons x xs)
  show ?case
    by (cases "map_of m k") (auto simp: Cons.IH map_of_bump)
qed

lemma distinct_fold_bump: "distinct (map fst m) \<Longrightarrow> distinct (map fst (fold bump ls m))"
  by (induction ls arbitrary: m) (simp_all add: distinct_bump)

lemma distinct_countDates: "distinct (map fst (countDates ls))"
  by (simp add: countDates_def distinct_fold_bump)

lemma set_countDates: "set (countDates ls) = (\<lambda>d. (d, count_list ls d)) ` set ls"
proof -
  have "(k, c) \<in> set (countDates ls) \<longleftrightarrow> k \<in> set ls \<and> c = count_list ls k" for k c
    using map_of_eq_Some_iff [OF distinct_countDates, of ls k c]
    by (auto simp: countDates_def map_of_fold_bump split: if_splits)
  then show ?thesis by auto
qed

lemma mset_insertBy: "mset (insertBy cmp x xs) = add_mset x (mset xs)"
  by (induction xs) auto

lemma mset_sortBy: "mset (sortBy cmp xs) = mset xs"
  by (induction xs) (auto simp: mset_insertBy)

lemma set_sortBy: "set (sortBy cmp xs) = set xs"
  using mset_sortBy [of cmp xs] by (metis set_mset_mset)

lemma distinct_keys_sortBy: "distinct (map fst (sortBy cmp xs)) = distinct (map fst xs)"
proof -
  have "mset (map fst (sortBy cmp xs)) = mset (map fst xs)"
    by (simp add: mset_sortBy)
  then show ?thesis by (rule mset_eq_imp_distinct_iff)
qed

lemma hd_sortBy:
  fixes key :: "'a \<Rightarrow> 'k::linorder"
  assumes "xs \<noteq> []"
    and "\<forall>a\<in>set xs. \<forall>b\<in>set xs. (cmp a b \<le> 0) = (key b \<le> key a)"
  shows "key (hd (sortBy cmp xs)) = Max (key ` set xs)"
  using assms
proof (induction xs)
  case Nil
  then show ?case by simp
next
  case (Cons x xs)
  show ?case
  proof (cases "xs = []")
    case True
    then show ?thesis by simp
  next
    case False
    then have "sortBy cmp xs \<noteq> []"
      using set_sortBy [of cmp xs] by auto
    then obtain y ys where s: "sortBy cmp xs = y # ys" by (cases "sortBy cmp xs") auto
    then have y: "y \<in> set xs" using set_sortBy [of cmp xs] by auto
    have ih: "key y = Max (key ` set xs)"
      using Cons.IH False Cons.prems(2) s by auto
    have c: "(cmp x y \<le> 0) = (key y \<le> key x)"
      using Cons.prems(2) y by auto
    have "key (hd (sortBy cmp (x # xs))) = max (key x) (key y)"
      using c by (auto simp: s max_def)
    also have "\<dots> = Max (key ` set (x # xs))"
      using False by (simp add: ih)
    finally show ?thesis .
  qed
qed

lemma compareCodeUnits_le: "(compareCodeUnits a b \<le> 0) = (a \<le> b)"
  by (auto simp: compareCodeUnits_def)

text \<open>
  Claim C4. For a git project whose 30-day log prints at least one commit date, under a
  collation that orders the dates at hand as their ISO strings order: the per-day counts
  have one entry per day that occurs, each with the number of commits of that day, and
  the last-activity date is the greatest day as a string. Both are functions of which
  dates occur how often, so the order of the log lines does not matter.
\<close>

theorem getGitActivity_histogram:
  assumes "access env (pathJoin env dirPath ''.git'') = Inr ()"
    and "exec env dirPath None gitLogWindow = Inr out"
    and "ls = filter (\<lambda>line. trim line \<noteq> []) (splitLines out)"
    and "ls \<noteq> []"
    and "\<forall>a\<in>set ls. \<forall>b\<in>set ls. (localeCompare env a b \<le> 0) = (a \<le> b)"
  shows "\<exists>stats. getGitActivity env dirPath = (Some (Max (set ls)), stats, [])
           \<and> distinct (map fst stats)
           \<and> set stats = (\<lambda>d. (d, count_list ls d)) ` set ls"
proof -
  define cmp where "cmp = (\<lambda>(a::string \<times> nat) (b::string \<times> nat). localeCompare env (fst b) (fst a))"
  define stats where "stats = sortBy cmp (countDates ls)"
  have ne: "countDates ls \<noteq> []"
    using set_countDates [of ls] assms(4) by auto
  have st: "set stats = (\<lambda>d. (d, count_list ls d)) ` set ls"
    by (simp add: stats_def set_sortBy set_countDates)
  have di: "distinct (map fst stats)"
    by (simp add: stats_def distinct_keys_sortBy distinct_countDates)
  have "\<forall>a\<in>set (countDates ls). \<forall>b\<in>set (countDates ls). (cmp a b \<le> 0) = (fst b \<le> fst a)"
    using assms(5) by (auto simp: cmp_def set_countDates)
  then have "fst (hd stats) = Max (fst ` set (countDates ls))"
    unfolding stats_def using ne by (rule hd_sortBy [rotated])
  also have "fst ` set (countDates ls) = set ls"
    by (auto simp: set_countDates image_iff)
  finally have h: "fst (hd stats) = Max (set ls)" .
  have "stats \<noteq> []" using st assms(4) by auto
  then obtain s rest where sr: "stats = s # rest" by (cases stats) auto
  have "getGitActivity env dirPath = (Some (fst s), stats, [])"
    using assms(1,2,4) sr
    by (simp add: getGitActivity_def Let_def assms(3) [symmetric] stats_def [symmetric]
        cmp_def [symmetric])
  with h sr di st show ?thesis by auto
qed

lemma commit_lines:
  "filter (\<lambda>line. trim line \<noteq> []) (splitLines ''2024-01-01\<newline>2024-01-01\<newline>2024-01-02'')
     = [''2024-01-01'', ''2024-01-01'', ''2024-01-02'']"
  by (simp add: trim_def isWhiteSpace_def)

lemma commit_days_order: "''2024-01-01'' < ''2024-01-02''"
  by (simp add: less_char_def)

theorem getGitActivity_histogram_witness:
  "fst (getGitActivity commitsEnv ''/home/u/demo'') = Some ''2024-01-02''
   \<and> set (fst (snd (getGitActivity commitsEnv ''/home/u/demo''))) =
       {(''2024-01-01'', 2), (''2024-01-02'', 1)}
   \<and> distinct (map fst (fst (snd (getGitActivity commitsEnv ''/home/u/demo''))))
   \<and> snd (snd (getGitActivity commitsEnv ''/home/u/demo'')) = []"
proof -
  let ?ls = "[''2024-01-01'', ''2024-01-01'', ''2024-01-02'']"
  have a: "access commitsEnv (pathJoin commitsEnv ''/home/u/demo'' ''.git'') = Inr ()"
    by (simp add: commitsEnv_def)
  have b: "exec commitsEnv ''/home/u/demo'' None gitLogWindow
             = Inr ''2024-01-01\<newline>2024-01-01\<newline>2024-01-02''"
    by (simp add: commitsEnv_def gitAnswers_def)
  have c: "?ls = filter (\<lambda>line. trim line \<noteq> [])
                   (splitLines ''2024-01-01\<newline>2024-01-01\<newline>2024-01-02'')"
    by (simp only: commit_lines)
  have d: "?ls \<noteq> []" by simp
  have e: "\<forall>a\<in>set ?ls. \<forall>b\<in>set ?ls. (localeCompare commitsEnv a b \<le> 0) = (a \<le> b)"
    by (simp add: commitsEnv_def bareEnv_def compareCodeUnits_le)
  have m: "Max (set ?ls) = ''2024-01-02''"
    using commit_days_order by (simp add: max_def)
  have c1: "count_list ?ls ''2024-01-01'' = 2" and c2: "count_list ?ls ''2024-01-02'' = 1"
    by simp_all
  have "(\<lambda>d. (d, count_list ?ls d)) ` set ?ls =
          {(''2024-01-01'', count_list ?ls ''2024-01-01''),
           (''2024-01-02'', count_list ?ls ''2024-01-02'')}"
    by (simp only: list.set image_insert image_empty insert_absorb2)
  then have i: "(\<lambda>d. (d, count_list ?ls d)) ` set ?ls =
                  {(''2024-01-01'', 2), (''2024-01-02'', 1)}"
    by (simp only: c1 c2)
  obtain stats where r: "getGitActivity commitsEnv ''/home/u/demo'' = (Some (Max (set ?ls)), stats, [])"
      and di: "distinct (map fst stats)"
      and st: "set stats = (\<lambda>d. (d, count_list ?ls d)) ` set ?ls"
    using getGitActivity_histogram [OF a b c d e] by blast
  show ?thesis
    unfolding r using di st by (simp only: fst_conv snd_conv m i simp_thms)
qed

section \<open>Properties of the scan loop\<close>

lemma getGitInfo_returns: "\<exists>g l. getGitInfo run p = Inr (g, l)"
  using getGitInfo_body_returns [of run p] by (auto simp: getGitInfo_eq_body)

lemma paths_bindProject: "path (bindProject p) = path p"
  by (simp add: bindProject_def)

lemma path_overwrite: "path (overwrite v r) = path r"
  by (simp add: overwrite_def)

lemma paths_overwrite: "map path (map (overwrite v) rows) = map path rows"
  by (induction rows) (simp_all add: path_overwrite)

lemma map_path_upsertProject:
  "map path (projects (upsertProject p d)) =
     (if path p \<in> set (map path (projects d)) then map path (projects d)
      else map path (projects d) @ [path p])"
  by (simp add: upsertProject_def Let_def paths_bindProject paths_overwrite del: map_map set_map)

lemma paths_upsertProject:
  "set (map path (projects (upsertProject p d))) = insert (path p) (set (map path (projects d)))"
  by (auto simp add: map_path_upsertProject simp del: set_map)

lemma inspectChild_raises:
  assumes "candidate entry"
    and "isGitRepo env (pathJoin env rootPath (dname entry)) = Inl e
         \<or> (\<not> isl (isGitRepo env (pathJoin env rootPath (dname entry)))
            \<and> detectTechStack env (pathJoin env rootPath (dname entry)) = Inl e)"
  shows "inspectChild env rootPath entry now = Inl e"
  using assms by (auto simp: inspectChild_def Let_def split: sum.splits)

lemma inspectChild_resolved:
  assumes "detectorsResolve env rootPath entry"
  shows "(tracked env rootPath entry \<longrightarrow>
           (\<exists>pr l. inspectChild env rootPath entry now = Inr (Some (pr, l))
              \<and> path pr = pathJoin env rootPath (dname entry)))
       \<and> (\<not> tracked env rootPath entry \<longrightarrow> inspectChild env rootPath entry now = Inr None)"
proof (cases "candidate entry")
  case False
  then show ?thesis by (simp add: tracked_def inspectChild_def)
next
  case True
  let ?p = "pathJoin env rootPath (dname entry)"
  from True assms have "\<not> isl (isGitRepo env ?p)" "\<not> isl (detectTechStack env ?p)"
    by (auto simp: detectorsResolve_def)
  then obtain g t where gt: "isGitRepo env ?p = Inr g" "detectTechStack env ?p = Inr t"
    by (cases "isGitRepo env ?p"; cases "detectTechStack env ?p") auto
  obtain gi l where gi: "getGitInfo (exec env) ?p = Inr (gi, l)"
    using getGitInfo_returns by blast
  show ?thesis
    using True gt gi
    by (auto simp: tracked_def inspectChild_def Let_def assemble_def)
qed

lemma scanEntries_append:
  "scanEntries env rootPath (xs @ ys) acc w =
     (case scanEntries env rootPath xs acc w of
        (Inl e, w') \<Rightarrow> (Inl e, w')
      | (Inr ps, w') \<Rightarrow> scanEntries env rootPath ys ps w')"
proof (induction xs arbitrary: acc w)
  case Nil
  then show ?case by simp
next
  case (Cons x xs)
  show ?case
    by (auto simp: Cons.IH split: prod.splits sum.splits option.splits)
qed

lemma scanEntries_resolved:
  assumes "\<forall>x\<in>set xs. detectorsResolve env rootPath x"
  shows "\<exists>ps w'. scanEntries env rootPath xs acc w = (Inr (acc @ ps), w')
           \<and> map path ps = map (\<lambda>x. pathJoin env rootPath (dname x)) (filter (tracked env rootPath) xs)
           \<and> set (map path (projects (db w))) \<union> set (map path ps)
               \<subseteq> set (map path (projects (db w')))"
  using assms
proof (induction xs arbitrary: acc w)
  case Nil
  then show ?case by simp
next
  case (Cons x xs)
  then have rx: "detectorsResolve env rootPath x"
    and rxs: "\<forall>y\<in>set xs. detectorsResolve env rootPath y" by simp_all
  show ?case
  proof (cases "tracked env rootPath x")
    case False
    then have i: "inspectChild env rootPath x (clock env (ticks w)) = Inr None"
      using inspectChild_resolved [OF rx] by blast
    from Cons.IH [OF rxs, of acc w] False i show ?thesis
      by (auto simp: scanChild_def)
  next
    case True
    then obtain pr l where i: "inspectChild env rootPath x (clock env (ticks w)) = Inr (Some (pr, l))"
      and p: "path pr = pathJoin env rootPath (dname x)"
      using inspectChild_resolved [OF rx] by blast
    define w1 where "w1 = w\<lparr>db := upsertProject pr (db w), ticks := Suc (ticks w),
        logs := logs w @ l @ [ScannedProject (name pr) (tech_stack pr) (sync_status pr)]\<rparr>"
    from Cons.IH [OF rxs, of "acc @ [pr]" w1]
    obtain ps w' where r: "scanEntries env rootPath xs (acc @ [pr]) w1 = (Inr ((acc @ [pr]) @ ps), w')"
      and m: "map path ps = map (\<lambda>x. pathJoin env rootPath (dname x)) (filter (tracked env rootPath) xs)"
      and s: "set (map path (projects (db w1))) \<union> set (map path ps)
               \<subseteq> set (map path (projects (db w')))"
      by blast
    have d1: "set (map path (projects (db w1))) = insert (path pr) (set (map path (projects (db w))))"
      by (simp add: w1_def paths_upsertProject del: set_map)
    have "scanEntries env rootPath (x # xs) acc w = (Inr (acc @ pr # ps), w')"
      using i r by (simp add: scanChild_def w1_def)
    moreover have "map path (pr # ps) =
        map (\<lambda>x. pathJoin env rootPath (dname x)) (filter (tracked env rootPath) (x # xs))"
      using True p m by simp
    moreover have "set (map path (projects (db w))) \<union> set (map path (pr # ps))
               \<subseteq> set (map path (projects (db w')))"
      using s d1 by auto
    ultimately show ?thesis by blast
  qed
qed

text \<open>
  Claim C5, as the code has it. After a successful validation: if the two detectors
  resolve for every child that passes the test of the loop, \<open>scanDirectory\<close> returns
  normally whatever the readme reads and the git commands do, and every tracked child is
  in the returned list and in the store. If instead a detector rejects for a child, the
  handler around the loop logs the error and throws it again: \<open>scanDirectory\<close> fails
  with that error and the store is the one the children before it left, so the children
  after it are not processed.
\<close>

theorem scanDirectory_error_containment:
  assumes "validatePath env rootPath [HOME env] = Inr v"
  shows "(\<forall>entries. readdir env rootPath = Inr entries
            \<and> (\<forall>x\<in>set entries. detectorsResolve env rootPath x) \<longrightarrow>
          (\<exists>ps w'. scanDirectory env rootPath w = (Inr ps, w')
             \<and> map path ps = map (\<lambda>x. pathJoin env rootPath (dname x))
                                (filter (tracked env rootPath) entries)
             \<and> set (map path ps) \<subseteq> set (map path (projects (db w')))))
       \<and> (\<forall>before entry after e. readdir env rootPath = Inr (before @ entry # after)
            \<and> (\<forall>x\<in>set before. detectorsResolve env rootPath x)
            \<and> candidate entry
            \<and> (isGitRepo env (pathJoin env rootPath (dname entry)) = Inl e
               \<or> (\<not> isl (isGitRepo env (pathJoin env rootPath (dname entry)))
                  \<and> detectTechStack env (pathJoin env rootPath (dname entry)) = Inl e)) \<longrightarrow>
          scanDirectory env rootPath w =
            (Inl e, (snd (scanEntries env rootPath before [] w))
                      \<lparr>logs := logs (snd (scanEntries env rootPath before [] w))
                                @ [ScanFailed rootPath e]\<rparr>))"
proof (intro conjI allI impI)
  fix entries
  assume a: "readdir env rootPath = Inr entries
            \<and> (\<forall>x\<in>set entries. detectorsResolve env rootPath x)"
  then obtain ps w' where r: "scanEntries env rootPath entries [] w = (Inr ([] @ ps), w')"
    and m: "map path ps = map (\<lambda>x. pathJoin env rootPath (dname x))
                                (filter (tracked env rootPath) entries)"
    and s: "set (map path (projects (db w))) \<union> set (map path ps)
               \<subseteq> set (map path (projects (db w')))"
    using scanEntries_resolved [of entries env rootPath "[]" w] by blast
  have "scanDirectory env rootPath w = (Inr ps, w')"
    using assms a r by (simp add: scanDirectory_def)
  with m s show "\<exists>ps w'. scanDirectory env rootPath w = (Inr ps, w')
             \<and> map path ps = map (\<lambda>x. pathJoin env rootPath (dname x))
                                (filter (tracked env rootPath) entries)
             \<and> set (map path ps) \<subseteq> set (map path (projects (db w')))"
    by blast
next
  fix before entry after e
  assume a: "readdir env rootPath = Inr (before @ entry # after)
            \<and> (\<forall>x\<in>set before. detectorsResolve env rootPath x)
            \<and> candidate entry
            \<and> (isGitRepo env (pathJoin env rootPath (dname entry)) = Inl e
               \<or> (\<not> isl (isGitRepo env (pathJoin env rootPath (dname entry)))
                  \<and> detectTechStack env (pathJoin env rootPath (dname entry)) = Inl e))"
  then obtain ps w' where r: "scanEntries env rootPath before [] w = (Inr ([] @ ps), w')"
    using scanEntries_resolved [of before env rootPath "[]" w] by blast
  have i: "inspectChild env rootPath entry now = Inl e" for now
    using a by (intro inspectChild_raises) auto
  have "scanEntries env rootPath (before @ entry # after) [] w = (Inl e, w')"
    using r by (simp add: scanEntries_append scanChild_def i)
  then show "scanDirectory env rootPath w =
            (Inl e, (snd (scanEntries env rootPath before [] w))
                      \<lparr>logs := logs (snd (scanEntries env rootPath before [] w))
                                @ [ScanFailed rootPath e]\<rparr>)"
    using assms a r by (simp add: scanDirectory_def)
qed

lemma candidate_twoChildren:
  "candidate \<lparr>dname = ''alpha'', isDirectory = True\<rparr>"
  "candidate \<lparr>dname = ''beta'', isDirectory = True\<rparr>"
  by (simp_all add: candidate_def startsWith_def)

theorem scanDirectory_error_containment_witness:
  "map_sum id (map path) (fst (scanDirectory twoProjectsEnv ''/home/u'' emptyWorld))
     = Inr [''/home/u/alpha'', ''/home/u/beta'']
   \<and> scanDirectory brokenDetectorEnv ''/home/u'' emptyWorld
     = (Inl (ToolFailure ''EACCES''),
        emptyWorld\<lparr>logs := [ScanFailed ''/home/u'' (ToolFailure ''EACCES'')]\<rparr>)"
proof -
  have v1: "validatePath twoProjectsEnv ''/home/u'' [HOME twoProjectsEnv] = Inr ''/home/u''"
    by (simp add: twoProjectsEnv_def bareEnv_def)
  have r1: "readdir twoProjectsEnv ''/home/u'' = Inr twoChildren"
    by (simp add: twoProjectsEnv_def bareEnv_def)
  have d1: "\<forall>x\<in>set twoChildren. detectorsResolve twoProjectsEnv ''/home/u'' x"
    by (simp add: twoChildren_def detectorsResolve_def twoProjectsEnv_def bareEnv_def)
  have t1: "filter (tracked twoProjectsEnv ''/home/u'') twoChildren = twoChildren"
    by (simp add: twoChildren_def tracked_def candidate_twoChildren twoProjectsEnv_def
        bareEnv_def truthy_def)
  have j1: "map (\<lambda>x. pathJoin twoProjectsEnv ''/home/u'' (dname x)) twoChildren
              = [''/home/u/alpha'', ''/home/u/beta'']"
    by (simp add: twoChildren_def twoProjectsEnv_def bareEnv_def)
  obtain ps w' where s1: "scanDirectory twoProjectsEnv ''/home/u'' emptyWorld = (Inr ps, w')"
    and p1: "map path ps = map (\<lambda>x. pathJoin twoProjectsEnv ''/home/u'' (dname x))
                              (filter (tracked twoProjectsEnv ''/home/u'') twoChildren)"
    using scanDirectory_error_containment [OF v1, of emptyWorld] r1 d1 by blast
  have a: "map_sum id (map path) (fst (scanDirectory twoProjectsEnv ''/home/u'' emptyWorld))
     = Inr [''/home/u/alpha'', ''/home/u/beta'']"
    by (simp add: s1 p1 t1 j1)
  have v2: "validatePath brokenDetectorEnv ''/home/u'' [HOME brokenDetectorEnv] = Inr ''/home/u''"
    by (simp add: brokenDetectorEnv_def bareEnv_def)
  have h2: "readdir brokenDetectorEnv ''/home/u''
              = Inr ([] @ \<lparr>dname = ''alpha'', isDirectory = True\<rparr>
                       # [\<lparr>dname = ''beta'', isDirectory = True\<rparr>])
          \<and> (\<forall>x\<in>set []. detectorsResolve brokenDetectorEnv ''/home/u'' x)
          \<and> candidate \<lparr>dname = ''alpha'', isDirectory = True\<rparr>
          \<and> (isGitRepo brokenDetectorEnv
                 (pathJoin brokenDetectorEnv ''/home/u'' (dname \<lparr>dname = ''alpha'', isDirectory = True\<rparr>))
                = Inl (ToolFailure ''EACCES'')
             \<or> (\<not> isl (isGitRepo brokenDetectorEnv
                 (pathJoin brokenDetectorEnv ''/home/u'' (dname \<lparr>dname = ''alpha'', isDirectory = True\<rparr>)))
                \<and> detectTechStack brokenDetectorEnv
                 (pathJoin brokenDetectorEnv ''/home/u'' (dname \<lparr>dname = ''alpha'', isDirectory = True\<rparr>))
                = Inl (ToolFailure ''EACCES'')))"
    by (simp add: brokenDetectorEnv_def bareEnv_def twoChildren_def candidate_twoChildren)
  have b: "scanDirectory brokenDetectorEnv ''/home/u'' emptyWorld
     = (Inl (ToolFailure ''EACCES''),
        emptyWorld\<lparr>logs := [ScanFailed ''/home/u'' (ToolFailure ''EACCES'')]\<rparr>)"
    using scanDirectory_error_containment [OF v2, of emptyWorld, THEN conjunct2, rule_format, OF h2]
    by (simp add: emptyWorld_def)
  show ?thesis using a b by simp
qed

text \<open>
  The claim as stated fails when the detector rejects for the first of two children: the
  scan ends with the error instead of returning, and the second child, which the
  detector recognises, is not in the store.
\<close>

theorem scanDirectory_aborts_on_detector_failure:
  "fst (scanDirectory brokenDetectorEnv ''/home/u'' emptyWorld) = Inl (ToolFailure ''EACCES'')
   \<and> projects (db (snd (scanDirectory brokenDetectorEnv ''/home/u'' emptyWorld))) = []
   \<and> tracked brokenDetectorEnv ''/home/u'' \<lparr>dname = ''beta'', isDirectory = True\<rparr>"
  by (simp add: scanDirectory_def scanChild_def inspectChild_def candidate_twoChildren
      brokenDetectorEnv_def bareEnv_def twoChildren_def emptyWorld_def emptyDatabase_def
      tracked_def truthy_def)

section \<open>Properties of the path validator\<close>

lemma isWithin_prefix: "isWithin rs cs = prefix rs cs"
  by (induction rs cs rule: isWithin.induct) auto

lemma resolveSegments_resolved:
  assumes "resolveSegments fuel links acc rest = Some c"
    and "[] \<notin> set acc \<and> ''.'' \<notin> set acc \<and> ''..'' \<notin> set acc"
    and "list_all (\<lambda>k. k = [] \<or> map_of links k = None) (prefixes acc)"
  shows "[] \<notin> set c \<and> ''.'' \<notin> set c \<and> ''..'' \<notin> set c
       \<and> list_all (\<lambda>k. k = [] \<or> map_of links k = None) (prefixes c)"
  using assms
proof (induction fuel links acc rest rule: resolveSegments.induct)
  case (1 fuel links acc)
  then show ?case by simp
next
  case (2 fuel links acc s rest)
  show ?case
  proof (cases "s = [] \<or> s = ''.''")
    case True
    then show ?thesis using 2 by auto
  next
    case False
    note notdot = this
    show ?thesis
    proof (cases "s = ''..''")
      case True
      have a: "[] \<notin> set (butlast acc) \<and> ''.'' \<notin> set (butlast acc) \<and> ''..'' \<notin> set (butlast acc)"
        using "2.prems"(2) by (auto dest: in_set_butlastD)
      have b: "list_all (\<lambda>k. k = [] \<or> map_of links k = None) (prefixes (butlast acc))"
      proof -
        have "prefix k acc" if "prefix k (butlast acc)" for k
          using that prefixeq_butlast [of acc] by (rule prefix_order.trans)
        then show ?thesis
          using "2.prems"(3) by (auto simp: list_all_iff in_set_prefixes)
      qed
      from "2.prems"(1) True notdot
      have "resolveSegments fuel links (butlast acc) rest = Some c" by simp
      from "2.IH"(2) [OF notdot True this a b] show ?thesis .
    next
      case False
      show ?thesis
      proof (cases "map_of links (acc @ [s])")
        case None
        have a: "[] \<notin> set (acc @ [s]) \<and> ''.'' \<notin> set (acc @ [s]) \<and> ''..'' \<notin> set (acc @ [s])"
          using "2.prems"(2) notdot False by auto
        have b: "list_all (\<lambda>k. k = [] \<or> map_of links k = None) (prefixes (acc @ [s]))"
          using "2.prems"(3) None by simp
        from "2.prems"(1) False notdot None
        have "resolveSegments fuel links (acc @ [s]) rest = Some c" by simp
        from "2.IH"(3) [OF notdot False None this a b] show ?thesis .
      next
        case (Some target)
        show ?thesis
        proof (cases fuel)
          case 0
          then show ?thesis using "2.prems"(1) False notdot Some by simp
        next
          case (Suc f)
          from "2.prems"(1) False notdot Some Suc
          have "resolveSegments f links [] (target @ rest) = Some c" by simp
          from "2.IH"(4) [OF notdot False Some Suc this] show ?thesis by simp
        qed
      qed
    qed
  qed
qed

lemma canonical_isResolved: "canonical fs p = Some c \<Longrightarrow> isResolved fs c"
  using resolveSegments_resolved [of "maxLinks fs" "symlinks fs" "[]" _ c]
  by (simp add: canonical_def isResolved_def)

text \<open>
  Claim C2, for the validator as the specification describes it. \<open>validatePathSpec\<close>
  succeeds exactly when the candidate has a canonical form that is the canonical form of
  one of the roots or lies below it, and then it returns that canonical form; in every
  other case it fails with \<open>AccessDenied\<close> for the candidate. The canonical form has no
  \<open>..\<close> segment left and passes through no symbolic link, so neither can stand in for
  a place under a root.
\<close>

theorem validatePathSpec_sandbox:
  "(validatePathSpec fs p allowedRoots = Inr out \<longleftrightarrow>
      (\<exists>c. canonical fs p = Some c \<and> out = renderPath c \<and> isResolved fs c
         \<and> (\<exists>r\<in>set allowedRoots. \<exists>cr. canonical fs r = Some cr \<and> prefix cr c)))
   \<and> ((\<forall>res. validatePathSpec fs p allowedRoots \<noteq> Inr res) \<longrightarrow>
        validatePathSpec fs p allowedRoots = Inl (AccessDenied p))"
proof (intro conjI impI)
  show "validatePathSpec fs p allowedRoots = Inr out \<longleftrightarrow>
      (\<exists>c. canonical fs p = Some c \<and> out = renderPath c \<and> isResolved fs c
         \<and> (\<exists>r\<in>set allowedRoots. \<exists>cr. canonical fs r = Some cr \<and> prefix cr c))"
  proof (cases "canonical fs p")
    case None
    then show ?thesis by (simp add: validatePathSpec_def)
  next
    case (Some c)
    have "list_ex (\<lambda>r. case canonical fs r of None \<Rightarrow> False | Some cr \<Rightarrow> isWithin cr c) allowedRoots
          \<longleftrightarrow> (\<exists>r\<in>set allowedRoots. \<exists>cr. canonical fs r = Some cr \<and> prefix cr c)"
      by (auto simp: list_ex_iff isWithin_prefix split: option.splits)
    then show ?thesis
      using Some canonical_isResolved [OF Some]
      by (auto simp: validatePathSpec_def)
  qed
next
  assume "\<forall>res. validatePathSpec fs p allowedRoots \<noteq> Inr res"
  then show "validatePathSpec fs p allowedRoots = Inl (AccessDenied p)"
    by (auto simp: validatePathSpec_def split: option.splits if_splits)
qed

theorem validatePathSpec_sandbox_witness:
  "validatePathSpec linkedFs ''/home/u/repo/src'' [''/home/u/repo''] = Inr ''/home/u/repo/src''
   \<and> validatePathSpec linkedFs ''/etc/passwd'' [''/home/u/repo''] = Inl (AccessDenied ''/etc/passwd'')
   \<and> validatePathSpec linkedFs ''/home/u/repo/../outside'' [''/home/u/repo'']
       = Inl (AccessDenied ''/home/u/repo/../outside'')
   \<and> validatePathSpec linkedFs ''/home/u/repo/link/passwd'' [''/home/u/repo'']
       = Inl (AccessDenied ''/home/u/repo/link/passwd'')"
proof -
  have root: "canonical linkedFs ''/home/u/repo'' = Some [''home'', ''u'', ''repo'']"
    by (simp add: canonical_def linkedFs_def startsWith_def)
  have c1: "canonical linkedFs ''/home/u/repo/src'' = Some [''home'', ''u'', ''repo'', ''src'']"
    by (simp add: canonical_def linkedFs_def startsWith_def)
  have c2: "canonical linkedFs ''/etc/passwd'' = Some [''etc'', ''passwd'']"
    by (simp add: canonical_def linkedFs_def startsWith_def)
  have c3: "canonical linkedFs ''/home/u/repo/../outside'' = Some [''home'', ''u'', ''outside'']"
    by (simp add: canonical_def linkedFs_def startsWith_def)
  have c4: "canonical linkedFs ''/home/u/repo/link/passwd'' = Some [''etc'', ''passwd'']"
    by (simp add: canonical_def linkedFs_def startsWith_def)
  have r1: "isResolved linkedFs [''home'', ''u'', ''repo'', ''src'']"
    using canonical_isResolved [OF c1] .
  have 1: "validatePathSpec linkedFs ''/home/u/repo/src'' [''/home/u/repo''] = Inr ''/home/u/repo/src''"
    using validatePathSpec_sandbox [of linkedFs "''/home/u/repo/src''" "[''/home/u/repo'']"
        "''/home/u/repo/src''", THEN conjunct1] root c1 r1
    by (simp add: renderPath_def)
  have no: "\<not> prefix [''home'', ''u'', ''repo''] [''etc'', ''passwd'']"
       "\<not> prefix [''home'', ''u'', ''repo''] [''home'', ''u'', ''outside'']"
    by simp_all
  have 2: "validatePathSpec linkedFs ''/etc/passwd'' [''/home/u/repo''] = Inl (AccessDenied ''/etc/passwd'')"
    using validatePathSpec_sandbox [of linkedFs "''/etc/passwd''" "[''/home/u/repo'']"] root c2 no
    by simp
  have 3: "validatePathSpec linkedFs ''/home/u/repo/../outside'' [''/home/u/repo'']
       = Inl (AccessDenied ''/home/u/repo/../outside'')"
    using validatePathSpec_sandbox [of linkedFs "''/home/u/repo/../outside''" "[''/home/u/repo'']"]
      root c3 no by simp
  have 4: "validatePathSpec linkedFs ''/home/u/repo/link/passwd'' [''/home/u/repo'']
       = Inl (AccessDenied ''/home/u/repo/link/passwd'')"
    using validatePathSpec_sandbox [of linkedFs "''/home/u/repo/link/passwd''" "[''/home/u/repo'']"]
      root c4 no by simp
  show ?thesis using 1 2 3 4 by simp
qed

section \<open>Properties of repeated scans\<close>

lemma id_overwrite: "id' (overwrite v r) = id' r"
  by (simp add: overwrite_def)

text \<open>A list of upserts acts row by row on a store that holds all their paths.\<close>

lemma path_fold_overwrite: "path (fold (\<lambda>p. overwrite (bindProject p)) ps r) = path r"
  by (induction ps arbitrary: r) (simp_all add: path_overwrite)

lemma id_fold_overwrite: "id' (fold (\<lambda>p. overwrite (bindProject p)) ps r) = id' r"
  by (induction ps arbitrary: r) (simp_all add: id_overwrite)

lemma fold_overwrite_refreshed: "fold (\<lambda>p. overwrite (bindProject p)) ps r = refreshed ps r"
proof (induction ps rule: rev_induct)
  case Nil
  then show ?case by (simp add: refreshed_def)
next
  case (snoc p ps)
  let ?f = "fold (\<lambda>p. overwrite (bindProject p)) ps"
  show ?case
  proof (cases "path p = path r")
    case True
    then have "overwrite (bindProject p) (?f r) = (bindProject p)\<lparr>id' := id' r\<rparr>"
      by (simp add: overwrite_def path_fold_overwrite id_fold_overwrite paths_bindProject)
    then show ?thesis using True by (simp add: refreshed_def)
  next
    case False
    then have "overwrite (bindProject p) (?f r) = ?f r"
      by (simp add: overwrite_def path_fold_overwrite paths_bindProject)
    then show ?thesis using False snoc.IH by (simp add: refreshed_def)
  qed
qed

lemma upsertProject_present:
  "path p \<in> set (map path (projects d)) \<Longrightarrow>
   projects (upsertProject p d) = map (overwrite (bindProject p)) (projects d)"
  by (simp add: upsertProject_def Let_def paths_bindProject del: set_map)

lemma rows_fold_upsert_present:
  "set (map path ps) \<subseteq> set (map path (projects d)) \<Longrightarrow>
   projects (fold upsertProject ps d) = map (refreshed ps) (projects d)"
proof (induction ps arbitrary: d)
  case Nil
  then show ?case by (simp add: refreshed_def)
next
  case (Cons p ps)
  have p: "path p \<in> set (map path (projects d))" using Cons.prems by simp
  have "set (map path ps) \<subseteq> set (map path (projects (upsertProject p d)))"
    using Cons.prems by (simp add: paths_upsertProject del: set_map) blast
  then have "projects (fold upsertProject ps (upsertProject p d)) =
      map (refreshed ps) (projects (upsertProject p d))"
    by (rule Cons.IH)
  then have "projects (fold upsertProject (p # ps) d) =
      map (\<lambda>r. fold (\<lambda>p. overwrite (bindProject p)) (p # ps) r) (projects d)"
    by (simp add: upsertProject_present [OF p] fold_overwrite_refreshed comp_def)
  then show ?case by (simp only: fold_overwrite_refreshed)
qed

lemma rows_fixed_after_upserts:
  "r \<in> set (projects (fold upsertProject ps d)) \<Longrightarrow> refreshed ps r = r"
proof (induction ps arbitrary: r rule: rev_induct)
  case Nil
  then show ?case by (simp add: refreshed_def)
next
  case (snoc p ps)
  let ?e = "fold upsertProject ps d"
  let ?v = "bindProject p"
  have fixed: "refreshed (ps @ [p]) x = x" if "x = ?v\<lparr>id' := i\<rparr>" for x i
    using that by (simp add: refreshed_def paths_bindProject)
  have other: "refreshed (ps @ [p]) x = refreshed ps x" if "path x \<noteq> path p" for x
    using that by (auto simp: refreshed_def)
  have r: "r \<in> set (projects (upsertProject p ?e))" using snoc.prems by simp
  show ?case
  proof (cases "path ?v \<in> set (map path (projects ?e))")
    case True
    then obtain r0 where r0: "r0 \<in> set (projects ?e)" "r = overwrite ?v r0"
      using r by (auto simp: upsertProject_def Let_def)
    show ?thesis
    proof (cases "path r0 = path ?v")
      case True
      then have "r = ?v\<lparr>id' := id' r0\<rparr>" using r0 by (simp add: overwrite_def)
      then show ?thesis by (rule fixed)
    next
      case False
      then have "r = r0" using r0 by (simp add: overwrite_def)
      then show ?thesis using snoc.IH [OF r0(1)] False other [of r0]
        by (simp add: paths_bindProject)
    qed
  next
    case False
    then have "r \<in> set (projects ?e) \<or> r = ?v\<lparr>id' := Some (Suc (projects_seq ?e))\<rparr>"
      using r by (auto simp: upsertProject_def Let_def)
    then show ?thesis
    proof
      assume a: "r \<in> set (projects ?e)"
      then have "path r \<in> set (map path (projects ?e))" by simp
      then have "path r \<noteq> path ?v" using False by metis
      then show ?thesis using snoc.IH [OF a] other [of r] by (simp add: paths_bindProject)
    next
      assume "r = ?v\<lparr>id' := Some (Suc (projects_seq ?e))\<rparr>"
      then show ?thesis by (rule fixed)
    qed
  qed
qed

lemma paths_fold_upsert:
  "set (map path (projects (fold upsertProject ps d))) =
     set (map path (projects d)) \<union> set (map path ps)"
proof (induction ps arbitrary: d)
  case Nil
  then show ?case by simp
next
  case (Cons p ps)
  show ?case
    using Cons.IH [of "upsertProject p d"] paths_upsertProject [of p d] by auto
qed

lemma rows_fold_upsert_idempotent:
  "projects (fold upsertProject ps (fold upsertProject ps d)) = projects (fold upsertProject ps d)"
proof -
  let ?e = "fold upsertProject ps d"
  have "set (map path ps) \<subseteq> set (map path (projects ?e))"
    using paths_fold_upsert [of ps d] by auto
  then have "projects (fold upsertProject ps ?e) = map (refreshed ps) (projects ?e)"
    by (rule rows_fold_upsert_present)
  also have "map (refreshed ps) (projects ?e) = projects ?e"
    by (rule map_idI) (rule rows_fixed_after_upserts)
  finally show ?thesis .
qed

lemma stats_upsertProject: "activity_stats (upsertProject p d) = activity_stats d"
  by (simp add: upsertProject_def Let_def)

lemma stats_fold_upsert: "activity_stats (fold upsertProject ps d) = activity_stats d"
  by (induction ps arbitrary: d) (simp_all add: stats_upsertProject)

text \<open>Blanking the scan time commutes with the upsert.\<close>

lemma bindProject_withoutScanTime:
  "bindProject (withoutScanTime p) = withoutScanTime (bindProject p)"
  by (simp add: bindProject_def withoutScanTime_def)

lemma path_withoutScanTime: "path (withoutScanTime r) = path r"
  by (simp add: withoutScanTime_def)

lemma paths_withoutScanTime: "map path (map withoutScanTime rows) = map path rows"
  by (induction rows) (simp_all add: path_withoutScanTime)

lemma overwrite_withoutScanTime:
  "overwrite (withoutScanTime v) (withoutScanTime r) = withoutScanTime (overwrite v r)"
  by (simp add: overwrite_def withoutScanTime_def)

lemma upsertProject_withoutScanTime:
  "upsertProject (withoutScanTime p) (storeWithoutScanTimes d) =
     storeWithoutScanTimes (upsertProject p d)"
proof -
  have o: "map (overwrite (withoutScanTime v)) (map withoutScanTime rows) =
           map withoutScanTime (map (overwrite v) rows)" for v rows
    by (induction rows) (simp_all add: overwrite_withoutScanTime)
  show ?thesis
  proof (cases "path (bindProject p) \<in> set (map path (projects d))")
    case True
    then show ?thesis
      by (simp add: upsertProject_def Let_def storeWithoutScanTimes_def
          bindProject_withoutScanTime path_withoutScanTime paths_withoutScanTime o
          del: set_map map_map)
  next
    case False
    then show ?thesis
      by (simp add: upsertProject_def Let_def storeWithoutScanTimes_def
          bindProject_withoutScanTime path_withoutScanTime paths_withoutScanTime
          del: set_map map_map)
        (simp add: withoutScanTime_def)
  qed
qed

lemma fold_upsert_withoutScanTime:
  "fold upsertProject (map withoutScanTime ps) (storeWithoutScanTimes d) =
     storeWithoutScanTimes (fold upsertProject ps d)"
  by (induction ps arbitrary: d) (simp_all add: upsertProject_withoutScanTime)

lemma rows_storeWithoutScanTimes:
  "projects (storeWithoutScanTimes d) = map withoutScanTime (projects d)"
  by (simp add: storeWithoutScanTimes_def)

lemma rescan_rows:
  assumes "map withoutScanTime ps2 = map withoutScanTime ps1"
  shows "map withoutScanTime (projects (fold upsertProject ps2 (fold upsertProject ps1 d))) =
         map withoutScanTime (projects (fold upsertProject ps1 d))"
proof -
  let ?e = "fold upsertProject ps1 d"
  have "storeWithoutScanTimes (fold upsertProject ps2 ?e) =
        fold upsertProject (map withoutScanTime ps1) (storeWithoutScanTimes ?e)"
    by (simp add: fold_upsert_withoutScanTime [symmetric] assms)
  also have "\<dots> = storeWithoutScanTimes (fold upsertProject ps1 ?e)"
    by (simp add: fold_upsert_withoutScanTime)
  finally have "projects (storeWithoutScanTimes (fold upsertProject ps2 ?e)) =
      projects (storeWithoutScanTimes (fold upsertProject ps1 ?e))"
    by simp
  then show ?thesis
    by (simp only: rows_storeWithoutScanTimes rows_fold_upsert_idempotent)
qed

lemma distinct_paths_upsert:
  "distinct (map path (projects d)) \<Longrightarrow> distinct (map path (projects (upsertProject p d)))"
  by (simp add: map_path_upsertProject del: set_map)

lemma distinct_paths_fold_upsert:
  "distinct (map path (projects d)) \<Longrightarrow>
   distinct (map path (projects (fold upsertProject ps d)))"
  by (induction ps arbitrary: d) (simp_all add: distinct_paths_upsert)

lemma one_row_per_path:
  "distinct (map path rows) \<Longrightarrow> k \<in> set (map path rows) \<Longrightarrow>
   length (filter (\<lambda>r. path r = k) rows) = 1"
proof (induction rows)
  case Nil
  then show ?case by simp
next
  case (Cons r rows)
  show ?case
  proof (cases "path r = k")
    case True
    then have "k \<notin> set (map path rows)" using Cons.prems(1) by simp
    then have "filter (\<lambda>r. path r = k) rows = []"
      by (auto simp: filter_empty_conv)
    then show ?thesis using True by simp
  next
    case False
    then show ?thesis using Cons by simp
  qed
qed

lemma upt_shift: "[a ..< a + Suc n] = a # [Suc a ..< Suc a + n]"
proof -
  have "a < a + Suc n" by simp
  then have "[a ..< a + Suc n] = a # [Suc a ..< a + Suc n]" by (rule upt_conv_Cons)
  moreover have "a + Suc n = Suc a + n" by simp
  ultimately show ?thesis by (simp only:)
qed

text \<open>The time read from the clock reaches the assembled record in one field only.\<close>

lemma inspectChild_now:
  "inspectChild env rootPath entry now =
     map_sum id (map_option (\<lambda>(p, l). (p\<lparr>last_scanned := now\<rparr>, l)))
       (inspectChild env rootPath entry now')"
  by (auto simp: inspectChild_def Let_def assemble_def split: sum.splits)

lemma scanEntries_upserts:
  assumes "scanEntries env rootPath xs acc w = (Inr ps, w')"
  shows "\<exists>new. ps = acc @ new \<and> db w' = fold upsertProject new (db w)
           \<and> (\<forall>acc2 w2. \<exists>new2 w2'.
                  scanEntries env rootPath xs acc2 w2 = (Inr (acc2 @ new2), w2')
                  \<and> map withoutScanTime new2 = map withoutScanTime new
                  \<and> map last_scanned new2 = map (clock env) [ticks w2 ..< ticks w2 + length new2]
                  \<and> db w2' = fold upsertProject new2 (db w2))"
  using assms
proof (induction xs arbitrary: acc w)
  case Nil
  then show ?case by simp
next
  case (Cons x xs)
  show ?case
  proof (cases "inspectChild env rootPath x (clock env (ticks w))")
    case (Inl e)
    then show ?thesis using Cons.prems by (simp add: scanChild_def)
  next
    case (Inr res)
    show ?thesis
    proof (cases res)
      case None
      have skip: "inspectChild env rootPath x t = Inr None" for t
        using inspectChild_now [of env rootPath x t "clock env (ticks w)"] Inr None by simp
      from Cons.prems have "scanEntries env rootPath xs acc w = (Inr ps, w')"
        by (simp add: scanChild_def skip)
      from Cons.IH [OF this] show ?thesis
        by (simp add: scanChild_def skip)
    next
      case (Some pl)
      obtain p l where pl: "pl = (p, l)" by (cases pl)
      have found: "inspectChild env rootPath x t = Inr (Some (p\<lparr>last_scanned := t\<rparr>, l))" for t
        using inspectChild_now [of env rootPath x t "clock env (ticks w)"] Inr Some pl by simp
      define w1 where "w1 = w\<lparr>db := upsertProject p (db w), ticks := Suc (ticks w),
          logs := logs w @ l @ [ScannedProject (name p) (tech_stack p) (sync_status p)]\<rparr>"
      from Cons.prems have "scanEntries env rootPath xs (acc @ [p]) w1 = (Inr ps, w')"
        using Inr Some pl by (simp add: scanChild_def w1_def)
      from Cons.IH [OF this] obtain new where n: "ps = (acc @ [p]) @ new"
        and d: "db w' = fold upsertProject new (db w1)"
        and o: "\<forall>acc2 w2. \<exists>new2 w2'.
                  scanEntries env rootPath xs acc2 w2 = (Inr (acc2 @ new2), w2')
                  \<and> map withoutScanTime new2 = map withoutScanTime new
                  \<and> map last_scanned new2 = map (clock env) [ticks w2 ..< ticks w2 + length new2]
                  \<and> db w2' = fold upsertProject new2 (db w2)"
        by blast
      have "\<exists>new2 w2'. scanEntries env rootPath (x # xs) acc2 w2 = (Inr (acc2 @ new2), w2')
                  \<and> map withoutScanTime new2 = map withoutScanTime (p # new)
                  \<and> map last_scanned new2 = map (clock env) [ticks w2 ..< ticks w2 + length new2]
                  \<and> db w2' = fold upsertProject new2 (db w2)" for acc2 w2
      proof -
        let ?q = "p\<lparr>last_scanned := clock env (ticks w2)\<rparr>"
        let ?w = "w2\<lparr>db := upsertProject ?q (db w2), ticks := Suc (ticks w2),
          logs := logs w2 @ l @ [ScannedProject (name ?q) (tech_stack ?q) (sync_status ?q)]\<rparr>"
        from o obtain new2 w2' where
          r: "scanEntries env rootPath xs (acc2 @ [?q]) ?w = (Inr ((acc2 @ [?q]) @ new2), w2')"
          and m: "map withoutScanTime new2 = map withoutScanTime new"
          and t: "map last_scanned new2 = map (clock env) [ticks ?w ..< ticks ?w + length new2]"
          and e: "db w2' = fold upsertProject new2 (db ?w)"
          by blast
        have "scanEntries env rootPath (x # xs) acc2 w2 = (Inr (acc2 @ ?q # new2), w2')"
          using r by (simp add: scanChild_def found)
        moreover have "map withoutScanTime (?q # new2) = map withoutScanTime (p # new)"
          using m by (simp add: withoutScanTime_def)
        moreover have "map last_scanned (?q # new2) =
            map (clock env) [ticks w2 ..< ticks w2 + length (?q # new2)]"
        proof -
          have q: "last_scanned ?q = clock env (ticks w2)" by simp
          have k: "ticks ?w = Suc (ticks w2)" by simp
          have "map last_scanned (?q # new2) =
                clock env (ticks w2) #
                  map (clock env) [Suc (ticks w2) ..< Suc (ticks w2) + length new2]"
            using t by (simp only: list.map q k)
          then show ?thesis by (simp only: length_Cons upt_shift list.map)
        qed
        moreover have "db w2' = fold upsertProject (?q # new2) (db w2)"
          using e by simp
        ultimately show ?thesis by blast
      qed
      moreover have "ps = acc @ p # new" using n by simp
      moreover have "db w' = fold upsertProject (p # new) (db w)"
        using d by (simp add: w1_def)
      ultimately show ?thesis by blast
    qed
  qed
qed

text \<open>
  Claim C3, as the code has it. When neither the filesystem nor the answers of git have
  changed (one environment for both scans; only the clock moves on), a second
  \<open>scanDirectory\<close> of the same root after a successful first one succeeds and reports
  the same projects, now with the times the clock shows during the second scan. Every
  stored row whose path is reported is overwritten with the record reported for it and
  keeps its id; the other rows are untouched; no row is added. So the store has the rows,
  ids and order it had after the first scan, each row equal to what it was in every field
  but \<open>last_scanned\<close>; paths stay unique and every reported project has exactly one row.
\<close>

theorem scanDirectory_idempotent:
  assumes "distinct (map path (projects (db w0)))"
    and "scanDirectory env rootPath w0 = (Inr ps1, w1)"
  shows "\<exists>ps2 w2. scanDirectory env rootPath w1 = (Inr ps2, w2)
           \<and> map withoutScanTime ps2 = map withoutScanTime ps1
           \<and> map last_scanned ps2 = map (clock env) [ticks w1 ..< ticks w1 + length ps2]
           \<and> projects (db w2) = map (refreshed ps2) (projects (db w1))
           \<and> map withoutScanTime (projects (db w2)) = map withoutScanTime (projects (db w1))
           \<and> activity_stats (db w2) = activity_stats (db w1)
           \<and> distinct (map path (projects (db w2)))
           \<and> (\<forall>p\<in>set ps1. length (filter (\<lambda>r. path r = path p) (projects (db w2))) = 1)"
proof -
  from assms(2) obtain v entries where v: "validatePath env rootPath [HOME env] = Inr v"
    and rd: "readdir env rootPath = Inr entries"
    and s1: "scanEntries env rootPath entries [] w0 = (Inr ps1, w1)"
    by (auto simp: scanDirectory_def split: sum.splits prod.splits)
  from scanEntries_upserts [OF s1] obtain new where n: "ps1 = [] @ new"
    and d1: "db w1 = fold upsertProject new (db w0)"
    and o: "\<forall>acc2 w2. \<exists>new2 w2'.
                  scanEntries env rootPath entries acc2 w2 = (Inr (acc2 @ new2), w2')
                  \<and> map withoutScanTime new2 = map withoutScanTime new
                  \<and> map last_scanned new2 = map (clock env) [ticks w2 ..< ticks w2 + length new2]
                  \<and> db w2' = fold upsertProject new2 (db w2)"
    by blast
  from o obtain ps2 w2 where s2: "scanEntries env rootPath entries [] w1 = (Inr ([] @ ps2), w2)"
    and m: "map withoutScanTime ps2 = map withoutScanTime new"
    and t: "map last_scanned ps2 = map (clock env) [ticks w1 ..< ticks w1 + length ps2]"
    and d2: "db w2 = fold upsertProject ps2 (db w1)"
    by blast
  have r: "scanDirectory env rootPath w1 = (Inr ps2, w2)"
    using v rd s2 by (simp add: scanDirectory_def)
  have "map path (map withoutScanTime ps2) = map path (map withoutScanTime new)"
    using m by simp
  then have pp: "map path ps2 = map path new"
    by (simp only: paths_withoutScanTime)
  have sub1: "set (map path new) \<subseteq> set (map path (projects (db w1)))"
    unfolding d1 using paths_fold_upsert [of new "db w0"] by auto
  then have sub: "set (map path ps2) \<subseteq> set (map path (projects (db w1)))"
    by (simp only: pp)
  have rows: "projects (db w2) = map (refreshed ps2) (projects (db w1))"
    unfolding d2 using sub by (rule rows_fold_upsert_present)
  have e: "map withoutScanTime (projects (db w2)) = map withoutScanTime (projects (db w1))"
    unfolding d2 d1 using m by (rule rescan_rows)
  have st: "activity_stats (db w2) = activity_stats (db w1)"
    by (simp add: d2 stats_fold_upsert)
  have di1: "distinct (map path (projects (db w1)))"
    unfolding d1 using assms(1) by (rule distinct_paths_fold_upsert)
  have di: "distinct (map path (projects (db w2)))"
    unfolding d2 using di1 by (rule distinct_paths_fold_upsert)
  have "map path (projects (db w2)) = map path (projects (db w1))"
    using e paths_withoutScanTime by metis
  then have "set (map path ps1) \<subseteq> set (map path (projects (db w2)))"
    using sub1 n by simp
  then have one: "\<forall>p\<in>set ps1. length (filter (\<lambda>r. path r = path p) (projects (db w2))) = 1"
    using one_row_per_path [OF di] by auto
  from r m n t rows e st di one show ?thesis by auto
qed

lemma first_scan:
  "scanDirectory twoProjectsEnv ''/home/u'' emptyWorld =
     (Inr [scannedRecord ''alpha'' True ''tick '', scannedRecord ''beta'' False ''tick I''],
      afterFirstScan)"
  by (simp add: scanDirectory_def scanChild_def inspectChild_def candidate_twoChildren
      twoProjectsEnv_def bareEnv_def twoChildren_def emptyWorld_def emptyDatabase_def
      truthy_def getProjectDescription_def getGitInfo_def getGitInfo_body_def noRepo_def
      gitAnswers_def assemble_def upsertProject_def bindProject_def scannedRecord_def
      afterFirstScan_def)

lemma second_scan:
  "scanDirectory twoProjectsEnv ''/home/u'' afterFirstScan =
     (Inr [scannedRecord ''alpha'' True ''tick II'', scannedRecord ''beta'' False ''tick III''],
      afterSecondScan)"
  by (simp add: scanDirectory_def scanChild_def inspectChild_def candidate_twoChildren
      twoProjectsEnv_def bareEnv_def twoChildren_def emptyDatabase_def
      truthy_def getProjectDescription_def getGitInfo_def getGitInfo_body_def noRepo_def
      gitAnswers_def assemble_def upsertProject_def bindProject_def overwrite_def
      scannedRecord_def afterFirstScan_def afterSecondScan_def numeral_2_eq_2 numeral_3_eq_3)

theorem scanDirectory_idempotent_witness:
  "distinct (map path (projects (db emptyWorld)))
   \<and> scanDirectory twoProjectsEnv ''/home/u'' emptyWorld =
       (Inr [scannedRecord ''alpha'' True ''tick '', scannedRecord ''beta'' False ''tick I''],
        afterFirstScan)
   \<and> scanDirectory twoProjectsEnv ''/home/u'' afterFirstScan =
       (Inr [scannedRecord ''alpha'' True ''tick II'', scannedRecord ''beta'' False ''tick III''],
        afterSecondScan)
   \<and> map last_scanned (projects (db afterFirstScan)) = [''tick '', ''tick I'']
   \<and> projects (db afterSecondScan) =
       map (refreshed [scannedRecord ''alpha'' True ''tick II'', scannedRecord ''beta'' False ''tick III''])
         (projects (db afterFirstScan))
   \<and> map last_scanned (projects (db afterSecondScan)) = [''tick II'', ''tick III'']
   \<and> map withoutScanTime (projects (db afterSecondScan)) =
       map withoutScanTime (projects (db afterFirstScan))
   \<and> length (filter (\<lambda>r. path r = ''/home/u/alpha'') (projects (db afterSecondScan))) = 1
   \<and> length (filter (\<lambda>r. path r = ''/home/u/beta'') (projects (db afterSecondScan))) = 1"
proof -
  have h: "distinct (map path (projects (db emptyWorld)))"
    by (simp add: emptyWorld_def emptyDatabase_def)
  obtain ps2 w2 where r: "scanDirectory twoProjectsEnv ''/home/u'' afterFirstScan = (Inr ps2, w2)"
    and rows: "projects (db w2) = map (refreshed ps2) (projects (db afterFirstScan))"
    and e: "map withoutScanTime (projects (db w2)) = map withoutScanTime (projects (db afterFirstScan))"
    and o: "\<forall>p\<in>set [scannedRecord ''alpha'' True ''tick '', scannedRecord ''beta'' False ''tick I''].
              length (filter (\<lambda>r. path r = path p) (projects (db w2))) = 1"
    using scanDirectory_idempotent [OF h first_scan] by blast
  have ps2: "ps2 = [scannedRecord ''alpha'' True ''tick II'', scannedRecord ''beta'' False ''tick III'']"
    and w2: "w2 = afterSecondScan"
    using r by (simp_all add: second_scan)
  have o': "length (filter (\<lambda>r. path r = ''/home/u/alpha'') (projects (db w2))) = 1"
       "length (filter (\<lambda>r. path r = ''/home/u/beta'') (projects (db w2))) = 1"
    using o by (simp_all add: scannedRecord_def)
  have t1: "map last_scanned (projects (db afterFirstScan)) = [''tick '', ''tick I'']"
    by (simp add: afterFirstScan_def scannedRecord_def)
  have t2: "map last_scanned (projects (db afterSecondScan)) = [''tick II'', ''tick III'']"
    by (simp add: afterSecondScan_def scannedRecord_def)
  show ?thesis
    using h first_scan second_scan rows e o' t1 t2 unfolding ps2 w2 by simp
qed

text \<open>
  The claim as stated fails when the answers of git change between two scans and the
  filesystem does not: with the network gone at the second scan, the fetch fails and the
  stored synchronization state goes from Behind to Unknown.
\<close>

theorem scanDirectory_rescan_changes_sync_status:
  "offlineEnv = onlineEnv\<lparr>exec := offlineRepo\<rparr>
   \<and> map sync_status
        (projects (db (snd (scanDirectory onlineEnv ''/home/u'' emptyWorld))))
       = [Some ''Behind'', None]
   \<and> map sync_status
        (projects (db (snd (scanDirectory offlineEnv ''/home/u''
                              (snd (scanDirectory onlineEnv ''/home/u'' emptyWorld))))))
       = [Some ''Unknown'', None]"
  by (simp add: scanDirectory_def scanChild_def inspectChild_def candidate_twoChildren
      onlineEnv_def offlineEnv_def twoProjectsEnv_def bareEnv_def twoChildren_def
      emptyWorld_def emptyDatabase_def truthy_def getProjectDescription_def
      getGitInfo_def getGitInfo_body_def checkSync_def classify_def behindRepo_def
      offlineRepo_def gitAnswers_def trim_def isWhiteSpace_def assemble_def
      upsertProject_def bindProject_def overwrite_def Let_def)

end
